theory Spec2Isabelle
  imports Complex_Main "HOL-Library.Multiset" "HOL-Library.List_Lexorder" "HOL-Library.Char_ord"
begin

section \<open>AirControlX: global definitions and enums\<close>

text \<open>
  The model follows \<^verbatim>\<open>src/source.cpp\<close>. C++ \<^verbatim>\<open>int\<close> values are modelled as
  \<^typ>\<open>int\<close>: every quantity of the simulation (speeds, tick counts, counters) stays far
  below \<open>2^31\<close> within the 300 ticks the program runs, and signed overflow is undefined in
  C++. The scoped enums \<^verbatim>\<open>ArrivalState\<close> and \<^verbatim>\<open>DepartureState\<close> share the names
  \<^verbatim>\<open>TAXI\<close> and \<^verbatim>\<open>AT_GATE\<close>; as in the source they are written qualified.
\<close>

datatype FlightType = COMMERCIAL | CARGO | EMERGENCY

datatype ArrivalState = HOLDING | APPROACH | LANDING | TAXI | AT_GATE

datatype DepartureState = AT_GATE | TAXI | TAKEOFF_ROLL | CLIMB | CRUISE

datatype Direction = NORTH | SOUTH | EAST | WEST

datatype Runway = RWY_A | RWY_B | RWY_C | NONE

datatype PaymentStatus = UNPAID | PAID | OVERDUE

datatype MessageType = AVN_CREATED | PAYMENT_REQUEST | PAYMENT_CONFIRMATION | QUERY_AVN | QUERY_AIRLINE

subsection \<open>System configuration\<close>

definition ARRIVAL_NORTH_INTERVAL :: int where "ARRIVAL_NORTH_INTERVAL = 180"
definition ARRIVAL_SOUTH_INTERVAL :: int where "ARRIVAL_SOUTH_INTERVAL = 120"
definition DEPARTURE_EAST_INTERVAL :: int where "DEPARTURE_EAST_INTERVAL = 150"
definition DEPARTURE_WEST_INTERVAL :: int where "DEPARTURE_WEST_INTERVAL = 240"

definition NORTH_EMERGENCY_PROBABILITY :: int where "NORTH_EMERGENCY_PROBABILITY = 10"
definition SOUTH_EMERGENCY_PROBABILITY :: int where "SOUTH_EMERGENCY_PROBABILITY = 5"
definition EAST_EMERGENCY_PROBABILITY :: int where "EAST_EMERGENCY_PROBABILITY = 15"
definition WEST_EMERGENCY_PROBABILITY :: int where "WEST_EMERGENCY_PROBABILITY = 20"

definition HOLDING_MIN_SPEED :: int where "HOLDING_MIN_SPEED = 400"
definition HOLDING_MAX_SPEED :: int where "HOLDING_MAX_SPEED = 600"
definition APPROACH_MIN_SPEED :: int where "APPROACH_MIN_SPEED = 240"
definition APPROACH_MAX_SPEED :: int where "APPROACH_MAX_SPEED = 290"
definition LANDING_START_SPEED :: int where "LANDING_START_SPEED = 240"
definition LANDING_END_SPEED :: int where "LANDING_END_SPEED = 30"
definition TAXI_MIN_SPEED :: int where "TAXI_MIN_SPEED = 15"
definition TAXI_MAX_SPEED :: int where "TAXI_MAX_SPEED = 30"
definition GATE_MAX_SPEED :: int where "GATE_MAX_SPEED = 5"

definition TAKEOFF_MAX_SPEED :: int where "TAKEOFF_MAX_SPEED = 290"
definition CLIMB_MIN_SPEED :: int where "CLIMB_MIN_SPEED = 250"
definition CLIMB_MAX_SPEED :: int where "CLIMB_MAX_SPEED = 463"
definition CRUISE_MIN_SPEED :: int where "CRUISE_MIN_SPEED = 800"
definition CRUISE_MAX_SPEED :: int where "CRUISE_MAX_SPEED = 900"

definition COMMERCIAL_FINE :: int where "COMMERCIAL_FINE = 500000"
definition CARGO_FINE :: int where "CARGO_FINE = 700000"

text \<open>
  \<^verbatim>\<open>const float SERVICE_FEE_PERCENTAGE = 0.15;\<close> holds the binary32 number nearest to
  \<open>0.15\<close>, which is \<open>10066330 / 2^26\<close> (the 24-bit significand of \<open>1.2 \<times> 2^-3\<close> rounds
  \<open>10066329.6\<close> up). The amounts of a notice are \<^verbatim>\<open>double\<close>s; every product and sum the
  constructor forms from this constant and the two fines is a multiple of \<open>2^-26\<close> with a
  numerator below \<open>2^53\<close> (lemma \<open>AVN_amounts_are_doubles\<close> below), hence a binary64 number,
  so the floating-point operations do not round and are modelled by exact rational
  arithmetic.
\<close>

definition SERVICE_FEE_PERCENTAGE :: rat where
  "SERVICE_FEE_PERCENTAGE = 10066330 / 67108864"

definition VIOLATION_PROBABILITY :: int where "VIOLATION_PROBABILITY = 15"
definition MAX_VIOLATION_SPEED_EXCESS :: int where "MAX_VIOLATION_SPEED_EXCESS = 40"

lemmas config_defs =
  ARRIVAL_NORTH_INTERVAL_def ARRIVAL_SOUTH_INTERVAL_def DEPARTURE_EAST_INTERVAL_def
  DEPARTURE_WEST_INTERVAL_def NORTH_EMERGENCY_PROBABILITY_def SOUTH_EMERGENCY_PROBABILITY_def
  EAST_EMERGENCY_PROBABILITY_def WEST_EMERGENCY_PROBABILITY_def
  HOLDING_MIN_SPEED_def HOLDING_MAX_SPEED_def APPROACH_MIN_SPEED_def APPROACH_MAX_SPEED_def
  LANDING_START_SPEED_def LANDING_END_SPEED_def TAXI_MIN_SPEED_def TAXI_MAX_SPEED_def
  GATE_MAX_SPEED_def TAKEOFF_MAX_SPEED_def CLIMB_MIN_SPEED_def CLIMB_MAX_SPEED_def
  CRUISE_MIN_SPEED_def CRUISE_MAX_SPEED_def COMMERCIAL_FINE_def CARGO_FINE_def
  VIOLATION_PROBABILITY_def MAX_VIOLATION_SPEED_EXCESS_def

text \<open>
  Integer division of C++ truncates toward zero, unlike \<open>div\<close> on \<^typ>\<open>int\<close>, which
  rounds down.
\<close>

definition c_div :: "int \<Rightarrow> int \<Rightarrow> int" where
  "c_div a b = sgn a * sgn b * (\<bar>a\<bar> div \<bar>b\<bar>)"

section \<open>Airspace Violation Notice (AVN)\<close>

text \<open>
  Field names that several classes of the source share (\<^verbatim>\<open>id\<close>, \<^verbatim>\<open>airline\<close>,
  \<^verbatim>\<open>flightNumber\<close>) carry the class as a suffix.
\<close>

record AVN =
  id_avn :: int
  airline_avn :: string
  flightNumber_avn :: string
  aircraftType :: FlightType
  recordedSpeed :: int
  permissibleSpeedMin :: int
  permissibleSpeedMax :: int
  issueTime :: int
  dueDate :: int
  fineAmount :: rat
  serviceFee :: rat
  totalAmount :: rat
  status :: PaymentStatus

text \<open>
  The constructor \<^verbatim>\<open>AVN::AVN\<close>. Its last argument is the value \<^verbatim>\<open>time(nullptr)\<close>
  returns when the constructor runs.
\<close>

definition AVN_ctor ::
  "int \<Rightarrow> string \<Rightarrow> string \<Rightarrow> FlightType \<Rightarrow> int \<Rightarrow> int \<Rightarrow> int \<Rightarrow> int \<Rightarrow> AVN" where
  "AVN_ctor i al fn t speed speedMin speedMax now =
     (let fine = (if t = COMMERCIAL then of_int COMMERCIAL_FINE else of_int CARGO_FINE);
          fee = fine * SERVICE_FEE_PERCENTAGE
      in \<lparr> id_avn = i, airline_avn = al, flightNumber_avn = fn, aircraftType = t,
           recordedSpeed = speed, permissibleSpeedMin = speedMin,
           permissibleSpeedMax = speedMax,
           issueTime = now, dueDate = now + (3 * 24 * 60 * 60),
           fineAmount = fine, serviceFee = fee, totalAmount = fine + fee,
           status = UNPAID \<rparr>)"

text \<open>
  Amounts are printed with \<^verbatim>\<open>fixed << setprecision(2)\<close>: rounded to the nearest
  hundredth.
\<close>

definition round_currency :: "rat \<Rightarrow> rat" where
  "round_currency x = of_int (round (x * 100)) / 100"

section \<open>Process-wide state\<close>

text \<open>
  The simulation reads two sources of nondeterminism: the global random engine
  \<^verbatim>\<open>gen\<close> and the system clock. Both are modelled as oracles: \<open>gen\<close> is the sequence of
  outcomes of the successive distribution draws (before they are scaled into the range a
  draw asks for), \<open>clock\<close> the sequence of the successive readings of the clock
  (\<^verbatim>\<open>system_clock::now()\<close> and \<^verbatim>\<open>time(nullptr)\<close>). The remaining fields are the
  static counters of the source and the heap of notices: \<^verbatim>\<open>make_shared<AVN>\<close> appends
  a notice to \<open>avnHeap\<close>, and a \<^verbatim>\<open>shared_ptr<AVN>\<close> is a position in it. Console
  output is not modelled.
\<close>

record IPCMessage =
  type_msg :: MessageType
  avnId_msg :: int
  airline_msg :: string
  flightNumber_msg :: string
  amount_msg :: rat
  details_msg :: string
  minSpeed_msg :: int
  maxSpeed_msg :: int

record Globals =
  gen :: "nat \<Rightarrow> nat"
  genPos :: nat
  clock :: "nat \<Rightarrow> int"
  clockPos :: nat
  nextId :: int
  ArrivalFlight_avnIdCounter :: int
  DepartureFlight_avnIdCounter :: int
  avnHeap :: "AVN list"
  atcToAvn :: "IPCMessage list"

definition uniform_int_distribution :: "int \<Rightarrow> int \<Rightarrow> Globals \<Rightarrow> int \<times> Globals" where
  "uniform_int_distribution a b g =
     (a + int (gen g (genPos g) mod nat (b - a + 1)), g\<lparr>genPos := genPos g + 1\<rparr>)"

definition read_clock :: "Globals \<Rightarrow> int \<times> Globals" where
  "read_clock g = (clock g (clockPos g), g\<lparr>clockPos := clockPos g + 1\<rparr>)"

section \<open>Aircraft\<close>

text \<open>
  The classes \<^verbatim>\<open>ArrivalFlight\<close> and \<^verbatim>\<open>DepartureFlight\<close> add the same two fields,
  \<^verbatim>\<open>state\<close> and \<^verbatim>\<open>stateTime\<close>, to \<^verbatim>\<open>Aircraft\<close>. One record models both; the
  constructor of the \<open>state\<close> field tells the dynamic class of the object, and a virtual
  call dispatches on it. The field \<^verbatim>\<open>actualTime\<close> is never read or written and is left
  out. \<open>currentViolation\<close> is a reference into \<open>avnHeap\<close>.
\<close>

datatype FlightState = Arrival ArrivalState | Departure DepartureState

record Aircraft =
  id_aircraft :: int
  flightNumber :: string
  airline :: string
  type :: FlightType
  direction :: Direction
  priority :: int
  currentSpeed :: int
  hasActiveViolation :: bool
  currentViolation :: "nat option"
  scheduledTime :: int
  assignedRunway :: Runway
  isEmergency :: bool
  violatedStates :: "string set"
  maintainViolationSpeed :: bool
  violationSpeed :: int
  state :: FlightState
  stateTime :: int

definition HOLDING_TIME :: int where "HOLDING_TIME = 20"
definition APPROACH_TIME :: int where "APPROACH_TIME = 15"
definition LANDING_TIME :: int where "LANDING_TIME = 10"
definition TAXI_TIME :: int where "TAXI_TIME = 15"
definition TAKEOFF_TIME :: int where "TAKEOFF_TIME = 10"
definition CLIMB_TIME :: int where "CLIMB_TIME = 20"

lemmas time_defs =
  HOLDING_TIME_def APPROACH_TIME_def LANDING_TIME_def TAXI_TIME_def TAKEOFF_TIME_def
  CLIMB_TIME_def

text \<open>The base-class constructor \<^verbatim>\<open>Aircraft::Aircraft\<close>, given the state the subclass starts in.\<close>

definition Aircraft_ctor ::
  "string \<Rightarrow> string \<Rightarrow> FlightType \<Rightarrow> Direction \<Rightarrow> int \<Rightarrow> int \<Rightarrow> FlightState \<Rightarrow> Globals
   \<Rightarrow> Aircraft \<times> Globals" where
  "Aircraft_ctor fn al t d p sched st g =
     (\<lparr> id_aircraft = nextId g, flightNumber = fn, airline = al, type = t, direction = d,
         priority = p, currentSpeed = 0, hasActiveViolation = False,
         currentViolation = None, scheduledTime = sched, assignedRunway = NONE,
         isEmergency = False, violatedStates = {}, maintainViolationSpeed = False,
         violationSpeed = 0, state = st, stateTime = 0 \<rparr>,
      g\<lparr>nextId := nextId g + 1\<rparr>)"

definition ArrivalFlight_ctor ::
  "string \<Rightarrow> string \<Rightarrow> FlightType \<Rightarrow> Direction \<Rightarrow> int \<Rightarrow> int \<Rightarrow> Globals \<Rightarrow> Aircraft \<times> Globals" where
  "ArrivalFlight_ctor fn al t d p sched g =
     (let (a, g1) = Aircraft_ctor fn al t d p sched (Arrival HOLDING) g;
          (v, g2) = uniform_int_distribution HOLDING_MIN_SPEED HOLDING_MAX_SPEED g1
      in (a\<lparr>currentSpeed := v\<rparr>, g2))"

definition DepartureFlight_ctor ::
  "string \<Rightarrow> string \<Rightarrow> FlightType \<Rightarrow> Direction \<Rightarrow> int \<Rightarrow> int \<Rightarrow> Globals \<Rightarrow> Aircraft \<times> Globals" where
  "DepartureFlight_ctor fn al t d p sched g =
     (let (a, g1) = Aircraft_ctor fn al t d p sched (Departure DepartureState.AT_GATE) g
      in (a\<lparr>currentSpeed := 0\<rparr>, g1))"

fun getStateString :: "FlightState \<Rightarrow> string" where
  "getStateString (Arrival HOLDING) = ''Holding''"
| "getStateString (Arrival APPROACH) = ''Approach''"
| "getStateString (Arrival LANDING) = ''Landing''"
| "getStateString (Arrival ArrivalState.TAXI) = ''Taxi''"
| "getStateString (Arrival ArrivalState.AT_GATE) = ''At Gate''"
| "getStateString (Departure DepartureState.AT_GATE) = ''At Gate''"
| "getStateString (Departure DepartureState.TAXI) = ''Taxi''"
| "getStateString (Departure TAKEOFF_ROLL) = ''Takeoff Roll''"
| "getStateString (Departure CLIMB) = ''Climb''"
| "getStateString (Departure CRUISE) = ''Cruise''"

fun isCompleted :: "Aircraft \<Rightarrow> bool" where
  "isCompleted a =
     (case state a of Arrival st \<Rightarrow> st = ArrivalState.AT_GATE
                    | Departure st \<Rightarrow> st = CRUISE)"

subsection \<open>The violation detector\<close>

text \<open>
  The \<^verbatim>\<open>switch\<close> of \<^verbatim>\<open>checkViolation\<close>: from the phase, the speed and the time in the
  phase to the locals \<^verbatim>\<open>(violation, minSpeed, maxSpeed)\<close>.
\<close>

fun ArrivalFlight_violation :: "ArrivalState \<Rightarrow> int \<Rightarrow> int \<Rightarrow> bool \<times> int \<times> int" where
  "ArrivalFlight_violation HOLDING speed t =
     (if speed > HOLDING_MAX_SPEED then (True, HOLDING_MIN_SPEED, HOLDING_MAX_SPEED)
      else (False, 0, 0))"
| "ArrivalFlight_violation APPROACH speed t =
     (if speed < APPROACH_MIN_SPEED \<or> speed > APPROACH_MAX_SPEED
      then (True, APPROACH_MIN_SPEED, APPROACH_MAX_SPEED) else (False, 0, 0))"
| "ArrivalFlight_violation LANDING speed t =
     (if speed > LANDING_START_SPEED \<or> (t \<ge> LANDING_TIME \<and> speed > LANDING_END_SPEED)
      then (True, 0, LANDING_START_SPEED) else (False, 0, 0))"
| "ArrivalFlight_violation ArrivalState.TAXI speed t =
     (if speed > TAXI_MAX_SPEED then (True, TAXI_MIN_SPEED, TAXI_MAX_SPEED)
      else (False, 0, 0))"
| "ArrivalFlight_violation ArrivalState.AT_GATE speed t =
     (if speed > GATE_MAX_SPEED then (True, 0, GATE_MAX_SPEED) else (False, 0, 0))"

fun DepartureFlight_violation :: "DepartureState \<Rightarrow> int \<Rightarrow> int \<Rightarrow> bool \<times> int \<times> int" where
  "DepartureFlight_violation DepartureState.AT_GATE speed t =
     (if speed > GATE_MAX_SPEED then (True, 0, GATE_MAX_SPEED) else (False, 0, 0))"
| "DepartureFlight_violation DepartureState.TAXI speed t =
     (if speed > TAXI_MAX_SPEED then (True, TAXI_MIN_SPEED, TAXI_MAX_SPEED)
      else (False, 0, 0))"
| "DepartureFlight_violation TAKEOFF_ROLL speed t =
     (if speed > TAKEOFF_MAX_SPEED then (True, 0, TAKEOFF_MAX_SPEED) else (False, 0, 0))"
| "DepartureFlight_violation CLIMB speed t =
     (if speed > CLIMB_MAX_SPEED then (True, CLIMB_MIN_SPEED, CLIMB_MAX_SPEED)
      else (False, 0, 0))"
| "DepartureFlight_violation CRUISE speed t =
     (if speed < CRUISE_MIN_SPEED \<or> speed > CRUISE_MAX_SPEED
      then (True, CRUISE_MIN_SPEED, CRUISE_MAX_SPEED) else (False, 0, 0))"

text \<open>
  \<^verbatim>\<open>ArrivalFlight::checkViolation\<close> and \<^verbatim>\<open>DepartureFlight::checkViolation\<close>. Each has
  a function-local \<^verbatim>\<open>static int avnIdCounter = 1000\<close> of its own.
\<close>

definition ArrivalFlight_checkViolation :: "ArrivalState \<Rightarrow> Aircraft \<Rightarrow> Globals \<Rightarrow> Aircraft \<times> Globals" where
  "ArrivalFlight_checkViolation st a g =
     (let currentStateStr = getStateString (state a) in
      if currentStateStr \<in> violatedStates a then (a, g)
      else
        (case ArrivalFlight_violation st (currentSpeed a) (stateTime a) of
           (violation, minSpeed, maxSpeed) \<Rightarrow>
             if violation then
               (let (now, g1) = read_clock g;
                    avn = AVN_ctor (ArrivalFlight_avnIdCounter g1) (airline a) (flightNumber a)
                            (type a) (currentSpeed a) minSpeed maxSpeed now;
                    g2 = g1\<lparr>ArrivalFlight_avnIdCounter := ArrivalFlight_avnIdCounter g1 + 1,
                            avnHeap := avnHeap g1 @ [avn]\<rparr>
                in (a\<lparr>hasActiveViolation := True,
                       currentViolation := Some (length (avnHeap g1)),
                       violatedStates := insert currentStateStr (violatedStates a)\<rparr>, g2))
             else (a, g)))"

definition DepartureFlight_checkViolation :: "DepartureState \<Rightarrow> Aircraft \<Rightarrow> Globals \<Rightarrow> Aircraft \<times> Globals" where
  "DepartureFlight_checkViolation st a g =
     (let currentStateStr = getStateString (state a) in
      if currentStateStr \<in> violatedStates a then (a, g)
      else
        (case DepartureFlight_violation st (currentSpeed a) (stateTime a) of
           (violation, minSpeed, maxSpeed) \<Rightarrow>
             if violation then
               (let (now, g1) = read_clock g;
                    avn = AVN_ctor (DepartureFlight_avnIdCounter g1) (airline a) (flightNumber a)
                            (type a) (currentSpeed a) minSpeed maxSpeed now;
                    g2 = g1\<lparr>DepartureFlight_avnIdCounter := DepartureFlight_avnIdCounter g1 + 1,
                            avnHeap := avnHeap g1 @ [avn]\<rparr>
                in (a\<lparr>hasActiveViolation := True,
                       currentViolation := Some (length (avnHeap g1)),
                       violatedStates := insert currentStateStr (violatedStates a)\<rparr>, g2))
             else (a, g)))"

definition checkViolation :: "Aircraft \<Rightarrow> Globals \<Rightarrow> Aircraft \<times> Globals" where
  "checkViolation a g =
     (case state a of Arrival st \<Rightarrow> ArrivalFlight_checkViolation st a g
                    | Departure st \<Rightarrow> DepartureFlight_checkViolation st a g)"

subsection \<open>The state machines\<close>

text \<open>
  \<^verbatim>\<open>updateStatus\<close> is split at its comments: the first \<^verbatim>\<open>switch\<close> (phase and speed),
  the block that injects a speed violation, and the call of \<^verbatim>\<open>checkViolation\<close>.
\<close>

text \<open>
  The speed of the Landing phase, \<^verbatim>\<open>max(LANDING_END_SPEED, LANDING_START_SPEED -
  (LANDING_START_SPEED - LANDING_END_SPEED) * stateTime / LANDING_TIME)\<close>, and of the
  take-off roll.
\<close>

definition landingSpeed :: "int \<Rightarrow> int" where
  "landingSpeed t =
     max LANDING_END_SPEED
       (LANDING_START_SPEED - c_div ((LANDING_START_SPEED - LANDING_END_SPEED) * t) LANDING_TIME)"

definition takeoffSpeed :: "int \<Rightarrow> int" where
  "takeoffSpeed t = min TAKEOFF_MAX_SPEED (c_div (TAKEOFF_MAX_SPEED * t) TAKEOFF_TIME)"

fun ArrivalFlight_advance :: "ArrivalState \<Rightarrow> Aircraft \<Rightarrow> Globals \<Rightarrow> Aircraft \<times> Globals" where
  "ArrivalFlight_advance HOLDING a g =
     (if stateTime a \<ge> HOLDING_TIME \<and> assignedRunway a \<noteq> NONE then
        (let a1 = a\<lparr>state := Arrival APPROACH, stateTime := 0, maintainViolationSpeed := False\<rparr>
         in if \<not> maintainViolationSpeed a1 then
              (let (v, g1) = uniform_int_distribution APPROACH_MIN_SPEED APPROACH_MAX_SPEED g
               in (a1\<lparr>currentSpeed := v\<rparr>, g1))
            else (a1, g))
      else (a, g))"
| "ArrivalFlight_advance APPROACH a g =
     (if stateTime a \<ge> APPROACH_TIME then
        (let a1 = a\<lparr>state := Arrival LANDING, stateTime := 0, maintainViolationSpeed := False\<rparr>
         in if \<not> maintainViolationSpeed a1 then (a1\<lparr>currentSpeed := LANDING_START_SPEED\<rparr>, g)
            else (a1, g))
      else (a, g))"
| "ArrivalFlight_advance LANDING a g =
     (let a1 = (if \<not> maintainViolationSpeed a then
                  a\<lparr>currentSpeed := landingSpeed (stateTime a)\<rparr>
                else a)
      in if stateTime a1 \<ge> LANDING_TIME then
           (let a2 = a1\<lparr>state := Arrival ArrivalState.TAXI, stateTime := 0,
                          maintainViolationSpeed := False\<rparr>
            in if \<not> maintainViolationSpeed a2 then
                 (let (v, g1) = uniform_int_distribution TAXI_MIN_SPEED TAXI_MAX_SPEED g
                  in (a2\<lparr>currentSpeed := v\<rparr>, g1))
               else (a2, g))
         else (a1, g))"
| "ArrivalFlight_advance ArrivalState.TAXI a g =
     (if stateTime a \<ge> TAXI_TIME then
        (a\<lparr>state := Arrival ArrivalState.AT_GATE, stateTime := 0,
           maintainViolationSpeed := False, currentSpeed := 0\<rparr>, g)
      else (a, g))"
| "ArrivalFlight_advance ArrivalState.AT_GATE a g =
     (a\<lparr>maintainViolationSpeed := False, currentSpeed := 0\<rparr>, g)"

definition ArrivalFlight_inject :: "Aircraft \<Rightarrow> Globals \<Rightarrow> Aircraft \<times> Globals" where
  "ArrivalFlight_inject a g =
     (if \<not> hasActiveViolation a \<and> \<not> isEmergency a \<and> \<not> maintainViolationSpeed a then
        (let (chance, g1) = uniform_int_distribution 1 100 g in
         if chance \<le> c_div VIOLATION_PROBABILITY 3 then
           (let (roll, g2) = uniform_int_distribution 1 100 g1 in
            if roll \<le> VIOLATION_PROBABILITY then
              (case state a of
                 Arrival HOLDING \<Rightarrow>
                   (let (excessSpeed, g3) = uniform_int_distribution 5 MAX_VIOLATION_SPEED_EXCESS g2;
                        v = HOLDING_MAX_SPEED + excessSpeed
                    in (a\<lparr>currentSpeed := v, maintainViolationSpeed := True, violationSpeed := v\<rparr>, g3))
               | Arrival APPROACH \<Rightarrow>
                   (let (excessSpeed, g3) = uniform_int_distribution 5 MAX_VIOLATION_SPEED_EXCESS g2;
                        v = APPROACH_MAX_SPEED + excessSpeed
                    in (a\<lparr>currentSpeed := v, maintainViolationSpeed := True, violationSpeed := v\<rparr>, g3))
               | Arrival LANDING \<Rightarrow>
                   (if stateTime a > c_div LANDING_TIME 2 then
                      (let (excessSpeed, g3) = uniform_int_distribution 5 MAX_VIOLATION_SPEED_EXCESS g2;
                           v = currentSpeed a + excessSpeed
                       in (a\<lparr>currentSpeed := v, maintainViolationSpeed := True, violationSpeed := v\<rparr>, g3))
                    else (a, g2))
               | Arrival ArrivalState.TAXI \<Rightarrow>
                   (let (e, g3) = uniform_int_distribution 5 MAX_VIOLATION_SPEED_EXCESS g2;
                        excessSpeed = c_div e 2;
                        v = TAXI_MAX_SPEED + excessSpeed
                    in (a\<lparr>currentSpeed := v, maintainViolationSpeed := True, violationSpeed := v\<rparr>, g3))
               | _ \<Rightarrow> (a, g2))
            else (a, g2))
         else (a, g1))
      else if maintainViolationSpeed a then (a\<lparr>currentSpeed := violationSpeed a\<rparr>, g)
      else (a, g))"

fun DepartureFlight_advance :: "DepartureState \<Rightarrow> Aircraft \<Rightarrow> Globals \<Rightarrow> Aircraft \<times> Globals" where
  "DepartureFlight_advance DepartureState.AT_GATE a g =
     (if assignedRunway a \<noteq> NONE then
        (let a1 = a\<lparr>state := Departure DepartureState.TAXI, stateTime := 0,
                      maintainViolationSpeed := False\<rparr>
         in if \<not> maintainViolationSpeed a1 then
              (let (v, g1) = uniform_int_distribution TAXI_MIN_SPEED TAXI_MAX_SPEED g
               in (a1\<lparr>currentSpeed := v\<rparr>, g1))
            else (a1, g))
      else (a\<lparr>currentSpeed := 0\<rparr>, g))"
| "DepartureFlight_advance DepartureState.TAXI a g =
     (if stateTime a \<ge> TAXI_TIME then
        (let a1 = a\<lparr>state := Departure TAKEOFF_ROLL, stateTime := 0,
                      maintainViolationSpeed := False\<rparr>
         in if \<not> maintainViolationSpeed a1 then (a1\<lparr>currentSpeed := 0\<rparr>, g) else (a1, g))
      else (a, g))"
| "DepartureFlight_advance TAKEOFF_ROLL a g =
     (let a1 = (if \<not> maintainViolationSpeed a then
                  a\<lparr>currentSpeed := takeoffSpeed (stateTime a)\<rparr>
                else a)
      in if stateTime a1 \<ge> TAKEOFF_TIME then
           (let a2 = a1\<lparr>state := Departure CLIMB, stateTime := 0, maintainViolationSpeed := False\<rparr>
            in if \<not> maintainViolationSpeed a2 then
                 (let (v, g1) = uniform_int_distribution CLIMB_MIN_SPEED CLIMB_MAX_SPEED g
                  in (a2\<lparr>currentSpeed := v\<rparr>, g1))
               else (a2, g))
         else (a1, g))"
| "DepartureFlight_advance CLIMB a g =
     (if stateTime a \<ge> CLIMB_TIME then
        (let a1 = a\<lparr>state := Departure CRUISE, stateTime := 0, maintainViolationSpeed := False\<rparr>
         in if \<not> maintainViolationSpeed a1 then
              (let (v, g1) = uniform_int_distribution CRUISE_MIN_SPEED CRUISE_MAX_SPEED g
               in (a1\<lparr>currentSpeed := v\<rparr>, g1))
            else (a1, g))
      else (a, g))"
| "DepartureFlight_advance CRUISE a g = (a, g)"

definition DepartureFlight_inject :: "Aircraft \<Rightarrow> Globals \<Rightarrow> Aircraft \<times> Globals" where
  "DepartureFlight_inject a g =
     (if \<not> hasActiveViolation a \<and> \<not> isEmergency a \<and> \<not> maintainViolationSpeed a then
        (let (chance, g1) = uniform_int_distribution 1 100 g in
         if chance \<le> c_div VIOLATION_PROBABILITY 3 then
           (let (roll, g2) = uniform_int_distribution 1 100 g1 in
            if roll \<le> VIOLATION_PROBABILITY then
              (case state a of
                 Departure DepartureState.TAXI \<Rightarrow>
                   (let (e, g3) = uniform_int_distribution 5 MAX_VIOLATION_SPEED_EXCESS g2;
                        excessSpeed = c_div e 2;
                        v = TAXI_MAX_SPEED + excessSpeed
                    in (a\<lparr>currentSpeed := v, maintainViolationSpeed := True, violationSpeed := v\<rparr>, g3))
               | Departure TAKEOFF_ROLL \<Rightarrow>
                   (if stateTime a > c_div TAKEOFF_TIME 2 then
                      (let (excessSpeed, g3) = uniform_int_distribution 5 MAX_VIOLATION_SPEED_EXCESS g2;
                           v = TAKEOFF_MAX_SPEED + excessSpeed
                       in (a\<lparr>currentSpeed := v, maintainViolationSpeed := True, violationSpeed := v\<rparr>, g3))
                    else (a, g2))
               | Departure CLIMB \<Rightarrow>
                   (let (excessSpeed, g3) = uniform_int_distribution 5 MAX_VIOLATION_SPEED_EXCESS g2;
                        v = CLIMB_MAX_SPEED + excessSpeed
                    in (a\<lparr>currentSpeed := v, maintainViolationSpeed := True, violationSpeed := v\<rparr>, g3))
               | Departure CRUISE \<Rightarrow>
                   (let (side, g3) = uniform_int_distribution 1 100 g2;
                        (excessSpeed, g4) = uniform_int_distribution 5 MAX_VIOLATION_SPEED_EXCESS g3;
                        v = (if side > 50 then CRUISE_MAX_SPEED + excessSpeed
                             else CRUISE_MIN_SPEED - excessSpeed)
                    in (a\<lparr>currentSpeed := v, maintainViolationSpeed := True, violationSpeed := v\<rparr>, g4))
               | _ \<Rightarrow> (a, g2))
            else (a, g2))
         else (a, g1))
      else if maintainViolationSpeed a then (a\<lparr>currentSpeed := violationSpeed a\<rparr>, g)
      else (a, g))"

definition ArrivalFlight_updateStatus :: "ArrivalState \<Rightarrow> Aircraft \<Rightarrow> Globals \<Rightarrow> Aircraft \<times> Globals" where
  "ArrivalFlight_updateStatus st a g =
     (let a0 = a\<lparr>stateTime := stateTime a + 1\<rparr>;
          previousState = state a0;
          (a1, g1) = ArrivalFlight_advance st a0 g;
          a2 = (if previousState \<noteq> state a1 then a1\<lparr>maintainViolationSpeed := False\<rparr> else a1);
          (a3, g3) = ArrivalFlight_inject a2 g1
      in checkViolation a3 g3)"

definition DepartureFlight_updateStatus :: "DepartureState \<Rightarrow> Aircraft \<Rightarrow> Globals \<Rightarrow> Aircraft \<times> Globals" where
  "DepartureFlight_updateStatus st a g =
     (let a0 = a\<lparr>stateTime := stateTime a + 1\<rparr>;
          previousState = state a0;
          (a1, g1) = DepartureFlight_advance st a0 g;
          a2 = (if previousState \<noteq> state a1 then a1\<lparr>maintainViolationSpeed := False\<rparr> else a1);
          (a3, g3) = DepartureFlight_inject a2 g1
      in checkViolation a3 g3)"

text \<open>The virtual call \<^verbatim>\<open>flight->updateStatus(currentSimulationTime)\<close>; the argument is unused.\<close>

definition updateStatus :: "Aircraft \<Rightarrow> Globals \<Rightarrow> Aircraft \<times> Globals" where
  "updateStatus a g =
     (case state a of Arrival st \<Rightarrow> ArrivalFlight_updateStatus st a g
                    | Departure st \<Rightarrow> DepartureFlight_updateStatus st a g)"

section \<open>Airlines and the flight scheduler\<close>

text \<open>\<open>violations\<close> holds references into \<open>avnHeap\<close>.\<close>

record Airline =
  name :: string
  totalAircrafts :: int
  activeFlights_airline :: int
  violations :: "nat list"

definition Airline_ctor :: "string \<Rightarrow> int \<Rightarrow> int \<Rightarrow> Airline" where
  "Airline_ctor n aircrafts flights =
     \<lparr> name = n, totalAircrafts = aircrafts, activeFlights_airline = flights, violations = [] \<rparr>"

definition addViolation :: "nat \<Rightarrow> Airline \<Rightarrow> Airline" where
  "addViolation violation al = al\<lparr>violations := violations al @ [violation]\<rparr>"

text \<open>
  A \<^verbatim>\<open>std::map<string, ...>\<close> is a list of entries in increasing key order (strings
  compare bytewise). \<open>map_assign\<close> is \<^verbatim>\<open>m[k] = v\<close>.
\<close>

fun map_assign :: "string \<Rightarrow> 'v \<Rightarrow> (string \<times> 'v) list \<Rightarrow> (string \<times> 'v) list" where
  "map_assign k v [] = [(k, v)]"
| "map_assign k v ((k', v') # m) =
     (if k < k' then (k, v) # (k', v') # m
      else if k = k' then (k, v) # m
      else (k', v') # map_assign k v m)"

text \<open>
  Aircraft live in \<open>allFlights\<close>: every aircraft is pushed there when it is created and
  never removed, so a \<^verbatim>\<open>shared_ptr<Aircraft>\<close> is a position in \<open>allFlights\<close>. The
  descriptor \<^verbatim>\<open>avnWritePipe\<close> is left out; what is written to it is \<open>atcToAvn\<close>.
\<close>

record FlightScheduler =
  allFlights :: "Aircraft list"
  activeFlights :: "nat list"
  completedFlights :: "nat list"
  airlines :: "(string \<times> Airline) list"
  allAVNs :: "nat list"
  currentSimulationTime :: int
  lastNorthArrival :: int
  lastSouthArrival :: int
  lastEastDeparture :: int
  lastWestDeparture :: int
  runwayAAvailable :: bool
  runwayBAvailable :: bool
  runwayCAvailable :: bool
  runwayAQueue :: "nat list"
  runwayBQueue :: "nat list"
  runwayCQueue :: "nat list"
  runwayAOccupant :: "nat option"
  runwayBOccupant :: "nat option"
  runwayCOccupant :: "nat option"
  runwayAFreeTime :: int
  runwayBFreeTime :: int
  runwayCFreeTime :: int

definition FlightScheduler_ctor :: FlightScheduler where
  "FlightScheduler_ctor =
     \<lparr> allFlights = [], activeFlights = [], completedFlights = [],
       airlines =
         map_assign ''AghaKhan Air Ambulance'' (Airline_ctor ''AghaKhan Air Ambulance'' 2 1)
          (map_assign ''Blue Dart'' (Airline_ctor ''Blue Dart'' 2 2)
            (map_assign ''Pakistan Airforce'' (Airline_ctor ''Pakistan Airforce'' 2 1)
              (map_assign ''FedEx'' (Airline_ctor ''FedEx'' 3 2)
                (map_assign ''AirBlue'' (Airline_ctor ''AirBlue'' 4 4)
                  (map_assign ''PIA'' (Airline_ctor ''PIA'' 6 4) []))))),
       allAVNs = [], currentSimulationTime = 0,
       lastNorthArrival = 0, lastSouthArrival = 0, lastEastDeparture = 0, lastWestDeparture = 0,
       runwayAAvailable = True, runwayBAvailable = True, runwayCAvailable = True,
       runwayAQueue = [], runwayBQueue = [], runwayCQueue = [],
       runwayAOccupant = None, runwayBOccupant = None, runwayCOccupant = None,
       runwayAFreeTime = 0, runwayBFreeTime = 0, runwayCFreeTime = 0 \<rparr>"

definition initial_globals :: "(nat \<Rightarrow> nat) \<Rightarrow> (nat \<Rightarrow> int) \<Rightarrow> Globals" where
  "initial_globals rnd clk =
     \<lparr> gen = rnd, genPos = 0, clock = clk, clockPos = 0, nextId = 1000,
       ArrivalFlight_avnIdCounter = 1000, DepartureFlight_avnIdCounter = 1000,
       avnHeap = [], atcToAvn = [] \<rparr>"

subsection \<open>The priority queues\<close>

text \<open>
  \<^verbatim>\<open>CompareAircraftPriority\<close> is the less-than of the queues: \<^verbatim>\<open>top()\<close> is an element
  no other element is greater than. Which of several equivalent elements is on top is
  left open by \<^verbatim>\<open>std::priority_queue\<close>; the model keeps the elements in the order
  they were pushed and takes the first greatest one. A queue holds references.
\<close>

definition CompareAircraftPriority :: "Aircraft \<Rightarrow> Aircraft \<Rightarrow> bool" where
  "CompareAircraftPriority a b =
     (if priority a \<noteq> priority b then priority a < priority b
      else scheduledTime a > scheduledTime b)"

fun pq_top_from :: "Aircraft list \<Rightarrow> nat \<Rightarrow> nat list \<Rightarrow> nat" where
  "pq_top_from fs best [] = best"
| "pq_top_from fs best (x # xs) =
     pq_top_from fs (if CompareAircraftPriority (fs ! best) (fs ! x) then x else best) xs"

fun pq_top :: "Aircraft list \<Rightarrow> nat list \<Rightarrow> nat" where
  "pq_top fs (x # xs) = pq_top_from fs x xs"

definition pq_pop :: "Aircraft list \<Rightarrow> nat list \<Rightarrow> nat list" where
  "pq_pop fs q = remove1 (pq_top fs q) q"

definition pq_push :: "nat list \<Rightarrow> nat \<Rightarrow> nat list" where
  "pq_push q a = q @ [a]"

subsection \<open>generateFlights\<close>

definition digits10 :: string where "digits10 = ''0123456789''"

fun string_of_nat :: "nat \<Rightarrow> string" where
  "string_of_nat n =
     (if n < 10 then [digits10 ! n] else string_of_nat (n div 10) @ [digits10 ! (n mod 10)])"

declare string_of_nat.simps [simp del]

text \<open>
  The four blocks of \<^verbatim>\<open>generateFlights\<close> are the same text up to the stream's
  emergency probability, the airline whose flights are always of type Emergency (none
  for the West stream), the base of the flight number, the class and direction of the
  flight and the queue it is pushed on. \<open>spawnFlight\<close> is that text with these as
  parameters. With no airline to choose from the source draws from an empty range and
  indexes an empty vector (undefined behaviour): the result \<open>None\<close>.
\<close>

definition flightTypeOf :: "bool \<Rightarrow> string \<Rightarrow> string list \<Rightarrow> FlightType" where
  "flightTypeOf emergency al emergencyAirlines =
     (let t = COMMERCIAL;
          t = (if al = ''FedEx'' \<or> al = ''Blue Dart'' then CARGO else t);
          t = (if emergency \<or> al \<in> set emergencyAirlines then EMERGENCY else t)
      in t)"

definition priorityOf :: "bool \<Rightarrow> FlightType \<Rightarrow> int" where
  "priorityOf emergency t = (if emergency then 3 else (if t = CARGO then 2 else 1))"

text \<open>The names of the airlines with \<^verbatim>\<open>activeFlights > 0\<close>, in the order of the map.\<close>

definition airlineNames :: "FlightScheduler \<Rightarrow> string list" where
  "airlineNames s = map fst (filter (\<lambda>(k, al). activeFlights_airline al > 0) (airlines s))"

definition spawnFlight ::
  "int \<Rightarrow> string list \<Rightarrow> nat \<Rightarrow> bool \<Rightarrow> Direction \<Rightarrow> FlightScheduler \<Rightarrow> Globals
   \<Rightarrow> (FlightScheduler \<times> Globals) option" where
  "spawnFlight emergencyProbability emergencyAirlines base arrival dir s g =
     (let (e, g1) = uniform_int_distribution 1 100 g;
          emergency = (e \<le> emergencyProbability);
          names = airlineNames s
      in if names = [] then None
         else
           (let (i, g2) = uniform_int_distribution 0 (int (length names) - 1) g1;
                al = names ! nat i;
                t = flightTypeOf emergency al emergencyAirlines;
                fn = take 2 al @ ''-'' @ string_of_nat (base + length (allFlights s));
                p = priorityOf emergency t;
                (now, g3) = read_clock g2;
                (flight, g4) = (if arrival then ArrivalFlight_ctor fn al t dir p now g3
                                else DepartureFlight_ctor fn al t dir p now g3);
                flight = flight\<lparr>isEmergency := emergency\<rparr>;
                r = length (allFlights s);
                s1 = s\<lparr>allFlights := allFlights s @ [flight],
                        activeFlights := activeFlights s @ [r]\<rparr>;
                s2 = (if arrival then s1\<lparr>runwayAQueue := pq_push (runwayAQueue s1) r\<rparr>
                      else s1\<lparr>runwayBQueue := pq_push (runwayBQueue s1) r\<rparr>)
            in Some (s2, g4)))"

definition generateNorth :: "FlightScheduler \<Rightarrow> Globals \<Rightarrow> (FlightScheduler \<times> Globals) option" where
  "generateNorth s g =
     (if currentSimulationTime s - lastNorthArrival s \<ge> ARRIVAL_NORTH_INTERVAL
         \<or> currentSimulationTime s = 1
      then spawnFlight NORTH_EMERGENCY_PROBABILITY [''Pakistan Airforce''] 1000 True NORTH
             (s\<lparr>lastNorthArrival := currentSimulationTime s\<rparr>) g
      else Some (s, g))"

definition generateSouth :: "FlightScheduler \<Rightarrow> Globals \<Rightarrow> (FlightScheduler \<times> Globals) option" where
  "generateSouth s g =
     (if currentSimulationTime s - lastSouthArrival s \<ge> ARRIVAL_SOUTH_INTERVAL
         \<or> currentSimulationTime s = 2
      then spawnFlight SOUTH_EMERGENCY_PROBABILITY [''AghaKhan Air Ambulance''] 1000 True SOUTH
             (s\<lparr>lastSouthArrival := currentSimulationTime s\<rparr>) g
      else Some (s, g))"

definition generateEast :: "FlightScheduler \<Rightarrow> Globals \<Rightarrow> (FlightScheduler \<times> Globals) option" where
  "generateEast s g =
     (if currentSimulationTime s - lastEastDeparture s \<ge> DEPARTURE_EAST_INTERVAL
         \<or> currentSimulationTime s = 3
      then spawnFlight EAST_EMERGENCY_PROBABILITY [''Pakistan Airforce''] 2000 False EAST
             (s\<lparr>lastEastDeparture := currentSimulationTime s\<rparr>) g
      else Some (s, g))"

definition generateWest :: "FlightScheduler \<Rightarrow> Globals \<Rightarrow> (FlightScheduler \<times> Globals) option" where
  "generateWest s g =
     (if currentSimulationTime s - lastWestDeparture s \<ge> DEPARTURE_WEST_INTERVAL
         \<or> currentSimulationTime s = 4
      then spawnFlight WEST_EMERGENCY_PROBABILITY [] 2000 False WEST
             (s\<lparr>lastWestDeparture := currentSimulationTime s\<rparr>) g
      else Some (s, g))"

definition generateFlights :: "FlightScheduler \<Rightarrow> Globals \<Rightarrow> (FlightScheduler \<times> Globals) option" where
  "generateFlights s g =
     (case generateNorth s g of None \<Rightarrow> None
      | Some (s1, g1) \<Rightarrow>
     (case generateSouth s1 g1 of None \<Rightarrow> None
      | Some (s2, g2) \<Rightarrow>
     (case generateEast s2 g2 of None \<Rightarrow> None
      | Some (s3, g3) \<Rightarrow> generateWest s3 g3)))"

subsection \<open>assignRunways\<close>

definition setAssignedRunway :: "nat \<Rightarrow> Runway \<Rightarrow> FlightScheduler \<Rightarrow> FlightScheduler" where
  "setAssignedRunway aircraft r s =
     s\<lparr>allFlights := (allFlights s)[aircraft := (allFlights s ! aircraft)\<lparr>assignedRunway := r\<rparr>]\<rparr>"

text \<open>
  The condition \<^verbatim>\<open>runwayXAvailable && currentSimulationTime >= runwayXFreeTime\<close> and
  the three guarded blocks that give a runway to \<open>aircraft\<close>; the second component is
  the value of the local \<^verbatim>\<open>assigned\<close> for an aircraft that entered the block unassigned.
\<close>

definition runwayAEligible :: "FlightScheduler \<Rightarrow> bool" where
  "runwayAEligible s = (runwayAAvailable s \<and> currentSimulationTime s \<ge> runwayAFreeTime s)"

definition runwayBEligible :: "FlightScheduler \<Rightarrow> bool" where
  "runwayBEligible s = (runwayBAvailable s \<and> currentSimulationTime s \<ge> runwayBFreeTime s)"

definition runwayCEligible :: "FlightScheduler \<Rightarrow> bool" where
  "runwayCEligible s = (runwayCAvailable s \<and> currentSimulationTime s \<ge> runwayCFreeTime s)"

definition tryRunwayA :: "nat \<Rightarrow> FlightScheduler \<Rightarrow> FlightScheduler \<times> bool" where
  "tryRunwayA aircraft s =
     (if runwayAEligible s then
        (setAssignedRunway aircraft RWY_A
           (s\<lparr>runwayAAvailable := False, runwayAOccupant := Some aircraft\<rparr>), True)
      else (s, False))"

definition tryRunwayB :: "nat \<Rightarrow> FlightScheduler \<Rightarrow> FlightScheduler \<times> bool" where
  "tryRunwayB aircraft s =
     (if runwayBEligible s then
        (setAssignedRunway aircraft RWY_B
           (s\<lparr>runwayBAvailable := False, runwayBOccupant := Some aircraft\<rparr>), True)
      else (s, False))"

definition tryRunwayC :: "nat \<Rightarrow> FlightScheduler \<Rightarrow> FlightScheduler \<times> bool" where
  "tryRunwayC aircraft s =
     (if runwayCEligible s then
        (setAssignedRunway aircraft RWY_C
           (s\<lparr>runwayCAvailable := False, runwayCOccupant := Some aircraft\<rparr>), True)
      else (s, False))"

text \<open>
  The body of the loop over \<^verbatim>\<open>runwayAQueue\<close>, from \<^verbatim>\<open>bool assigned = false\<close> to the
  last attempt, for an aircraft that has no runway; likewise for the other two queues.
\<close>

definition attemptA :: "nat \<Rightarrow> FlightScheduler \<Rightarrow> FlightScheduler \<times> bool" where
  "attemptA aircraft s =
     (let (s1, assigned1) =
            (if type (allFlights s ! aircraft) = EMERGENCY \<or> type (allFlights s ! aircraft) = CARGO
             then tryRunwayC aircraft s else (s, False));
          (s2, assigned2) =
            (if \<not> assigned1 \<and> (direction (allFlights s1 ! aircraft) = NORTH
                                \<or> direction (allFlights s1 ! aircraft) = SOUTH)
             then tryRunwayA aircraft s1 else (s1, assigned1));
          (s3, assigned3) =
            (if \<not> assigned2 \<and> type (allFlights s2 ! aircraft) \<noteq> CARGO
             then tryRunwayC aircraft s2 else (s2, assigned2))
      in (s3, assigned3))"

definition attemptB :: "nat \<Rightarrow> FlightScheduler \<Rightarrow> FlightScheduler \<times> bool" where
  "attemptB aircraft s =
     (let (s1, assigned1) =
            (if type (allFlights s ! aircraft) = EMERGENCY \<or> type (allFlights s ! aircraft) = CARGO
             then tryRunwayC aircraft s else (s, False));
          (s2, assigned2) =
            (if \<not> assigned1 \<and> (direction (allFlights s1 ! aircraft) = EAST
                                \<or> direction (allFlights s1 ! aircraft) = WEST)
             then tryRunwayB aircraft s1 else (s1, assigned1));
          (s3, assigned3) =
            (if \<not> assigned2 \<and> type (allFlights s2 ! aircraft) \<noteq> CARGO
             then tryRunwayC aircraft s2 else (s2, assigned2))
      in (s3, assigned3))"

definition attemptC :: "nat \<Rightarrow> FlightScheduler \<Rightarrow> FlightScheduler \<times> bool" where
  "attemptC aircraft s = tryRunwayC aircraft s"

text \<open>
  The three \<^verbatim>\<open>while\<close> loops. The second argument is the local temporary queue; each
  iteration pops the queue of the scheduler once.
\<close>

lemma pq_top_from_mem: "pq_top_from fs best xs \<in> set (best # xs)"
  by (induction xs arbitrary: best) auto

lemma pq_top_mem: "q \<noteq> [] \<Longrightarrow> pq_top fs q \<in> set q"
  using pq_top_from_mem by (cases q) auto

lemma length_pq_pop: "q \<noteq> [] \<Longrightarrow> length (pq_pop fs q) < length q"
  using pq_top_mem[of q fs]
  by (simp add: pq_pop_def length_remove1 length_pos_if_in_set del: pq_top.simps)

lemma try_queues:
  "runwayAQueue (fst (tryRunwayA a s)) = runwayAQueue s"
  "runwayBQueue (fst (tryRunwayA a s)) = runwayBQueue s"
  "runwayCQueue (fst (tryRunwayA a s)) = runwayCQueue s"
  "runwayAQueue (fst (tryRunwayB a s)) = runwayAQueue s"
  "runwayBQueue (fst (tryRunwayB a s)) = runwayBQueue s"
  "runwayCQueue (fst (tryRunwayB a s)) = runwayCQueue s"
  "runwayAQueue (fst (tryRunwayC a s)) = runwayAQueue s"
  "runwayBQueue (fst (tryRunwayC a s)) = runwayBQueue s"
  "runwayCQueue (fst (tryRunwayC a s)) = runwayCQueue s"
  by (simp_all add: tryRunwayA_def tryRunwayB_def tryRunwayC_def setAssignedRunway_def)

lemma attempt_queues:
  "runwayAQueue (fst (attemptA a s)) = runwayAQueue s"
  "runwayBQueue (fst (attemptB a s)) = runwayBQueue s"
  "runwayCQueue (fst (attemptC a s)) = runwayCQueue s"
  by (simp_all add: attemptA_def attemptB_def attemptC_def try_queues split_beta Let_def)

function processRunwayAQueue :: "FlightScheduler \<Rightarrow> nat list \<Rightarrow> FlightScheduler \<times> nat list" where
  "processRunwayAQueue s tempAQueue =
     (if runwayAQueue s = [] then (s, tempAQueue)
      else
        (let aircraft = pq_top (allFlights s) (runwayAQueue s);
             s0 = s\<lparr>runwayAQueue := pq_pop (allFlights s) (runwayAQueue s)\<rparr>
         in if assignedRunway (allFlights s0 ! aircraft) \<noteq> NONE
            then processRunwayAQueue s0 (pq_push tempAQueue aircraft)
            else
              (case attemptA aircraft s0 of
                 (s3, assigned) \<Rightarrow>
                   processRunwayAQueue s3
                     (if \<not> assigned then pq_push tempAQueue aircraft else tempAQueue))))"
  by pat_completeness auto
termination
proof (relation "measure (\<lambda>(s, t). length (runwayAQueue s))", goal_cases)
  case 1
  show ?case by simp
next
  case (2 s t x xa)
  then show ?case by (simp add: length_pq_pop)
next
  case (3 s t x xa xb y)
  have "runwayAQueue xb = runwayAQueue xa"
    using attempt_queues(1)[of x xa] 3(5) by (metis fst_conv)
  with 3 show ?case by (simp add: length_pq_pop)
qed

declare processRunwayAQueue.simps [simp del]

function processRunwayBQueue :: "FlightScheduler \<Rightarrow> nat list \<Rightarrow> FlightScheduler \<times> nat list" where
  "processRunwayBQueue s tempBQueue =
     (if runwayBQueue s = [] then (s, tempBQueue)
      else
        (let aircraft = pq_top (allFlights s) (runwayBQueue s);
             s0 = s\<lparr>runwayBQueue := pq_pop (allFlights s) (runwayBQueue s)\<rparr>
         in if assignedRunway (allFlights s0 ! aircraft) \<noteq> NONE
            then processRunwayBQueue s0 (pq_push tempBQueue aircraft)
            else
              (case attemptB aircraft s0 of
                 (s3, assigned) \<Rightarrow>
                   processRunwayBQueue s3
                     (if \<not> assigned then pq_push tempBQueue aircraft else tempBQueue))))"
  by pat_completeness auto
termination
proof (relation "measure (\<lambda>(s, t). length (runwayBQueue s))", goal_cases)
  case 1
  show ?case by simp
next
  case (2 s t x xa)
  then show ?case by (simp add: length_pq_pop)
next
  case (3 s t x xa xb y)
  have "runwayBQueue xb = runwayBQueue xa"
    using attempt_queues(2)[of x xa] 3(5) by (metis fst_conv)
  with 3 show ?case by (simp add: length_pq_pop)
qed

declare processRunwayBQueue.simps [simp del]

function processRunwayCQueue :: "FlightScheduler \<Rightarrow> nat list \<Rightarrow> FlightScheduler \<times> nat list" where
  "processRunwayCQueue s tempCQueue =
     (if runwayCQueue s = [] then (s, tempCQueue)
      else
        (let aircraft = pq_top (allFlights s) (runwayCQueue s);
             s0 = s\<lparr>runwayCQueue := pq_pop (allFlights s) (runwayCQueue s)\<rparr>
         in if assignedRunway (allFlights s0 ! aircraft) \<noteq> NONE
            then processRunwayCQueue s0 (pq_push tempCQueue aircraft)
            else
              (case attemptC aircraft s0 of
                 (s3, assigned) \<Rightarrow>
                   processRunwayCQueue s3
                     (if \<not> assigned then pq_push tempCQueue aircraft else tempCQueue))))"
  by pat_completeness auto
termination
proof (relation "measure (\<lambda>(s, t). length (runwayCQueue s))", goal_cases)
  case 1
  show ?case by simp
next
  case (2 s t x xa)
  then show ?case by (simp add: length_pq_pop)
next
  case (3 s t x xa xb y)
  have "runwayCQueue xb = runwayCQueue xa"
    using attempt_queues(3)[of x xa] 3(5) by (metis fst_conv)
  with 3 show ?case by (simp add: length_pq_pop)
qed

declare processRunwayCQueue.simps [simp del]

text \<open>The body of the loop that releases runways, for one element of \<^verbatim>\<open>activeFlights\<close>.\<close>

definition releaseRunwayOf :: "nat \<Rightarrow> FlightScheduler \<Rightarrow> FlightScheduler" where
  "releaseRunwayOf flight s =
     (if assignedRunway (allFlights s ! flight) \<noteq> NONE then
        (let releaseRunway =
               (case state (allFlights s ! flight) of
                  Arrival st \<Rightarrow> st = ArrivalState.TAXI \<or> st = ArrivalState.AT_GATE
                | Departure st \<Rightarrow> st = CLIMB \<or> st = CRUISE)
         in if releaseRunway then
              (let runway = assignedRunway (allFlights s ! flight);
                   s1 = setAssignedRunway flight NONE s
               in if runway = RWY_A then
                    s1\<lparr>runwayAAvailable := True, runwayAOccupant := None,
                       runwayAFreeTime := currentSimulationTime s1\<rparr>
                  else if runway = RWY_B then
                    s1\<lparr>runwayBAvailable := True, runwayBOccupant := None,
                       runwayBFreeTime := currentSimulationTime s1\<rparr>
                  else if runway = RWY_C then
                    s1\<lparr>runwayCAvailable := True, runwayCOccupant := None,
                       runwayCFreeTime := currentSimulationTime s1\<rparr>
                  else s1)
            else s)
      else s)"

definition assignRunways :: "FlightScheduler \<Rightarrow> FlightScheduler" where
  "assignRunways s =
     (let (sA, tempAQueue) = processRunwayAQueue s [];
          (sB, tempBQueue) = processRunwayBQueue sA [];
          (sC, tempCQueue) = processRunwayCQueue sB [];
          s1 = sC\<lparr>runwayAQueue := tempAQueue, runwayBQueue := tempBQueue,
                  runwayCQueue := tempCQueue\<rparr>
      in fold releaseRunwayOf (activeFlights s1) s1)"

subsection \<open>updateFlights, moveCompletedFlights, updateSimulation\<close>

fun map_update :: "string \<Rightarrow> ('v \<Rightarrow> 'v) \<Rightarrow> (string \<times> 'v) list \<Rightarrow> (string \<times> 'v) list" where
  "map_update k f [] = []"
| "map_update k f ((k', v) # m) = (if k = k' then (k', f v) # m else (k', v) # map_update k f m)"

text \<open>
  The body of the loop of \<^verbatim>\<open>updateFlights\<close>. \<^verbatim>\<open>strncpy\<close> into a buffer of \<open>n\<close> bytes
  followed by the terminating zero keeps the first \<open>n - 1\<close> characters.
\<close>

definition updateFlight :: "nat \<Rightarrow> FlightScheduler \<times> Globals \<Rightarrow> FlightScheduler \<times> Globals" where
  "updateFlight flight sg =
     (case sg of (s, g) \<Rightarrow>
      (let (a, g1) = updateStatus (allFlights s ! flight) g;
           s1 = s\<lparr>allFlights := (allFlights s)[flight := a]\<rparr>
       in case currentViolation a of
            None \<Rightarrow> (s1, g1)
          | Some v \<Rightarrow>
              if hasActiveViolation a then
                (case map_of (airlines s1) (airline a) of
                   None \<Rightarrow> (s1, g1)
                 | Some al \<Rightarrow>
                     (let s2 = s1\<lparr>airlines := map_update (airline a) (addViolation v) (airlines s1),
                                   allAVNs := allAVNs s1 @ [v]\<rparr>;
                          message =
                            \<lparr> type_msg = AVN_CREATED, avnId_msg = id_avn (avnHeap g1 ! v),
                              airline_msg = take 31 (airline a),
                              flightNumber_msg = take 15 (flightNumber a),
                              amount_msg = of_int (currentSpeed a),
                              details_msg = take 63 (if type a = COMMERCIAL then ''COMMERCIAL''
                                                      else ''CARGO''),
                              minSpeed_msg = permissibleSpeedMin (avnHeap g1 ! v),
                              maxSpeed_msg = permissibleSpeedMax (avnHeap g1 ! v) \<rparr>;
                          g2 = g1\<lparr>atcToAvn := atcToAvn g1 @ [message]\<rparr>;
                          s3 = s2\<lparr>allFlights := (allFlights s2)
                                  [flight := a\<lparr>hasActiveViolation := False,
                                               currentViolation := None\<rparr>]\<rparr>
                      in (s3, g2)))
              else (s1, g1)))"

definition updateFlights :: "FlightScheduler \<Rightarrow> Globals \<Rightarrow> FlightScheduler \<times> Globals" where
  "updateFlights s g = fold updateFlight (activeFlights s) (s, g)"

definition moveCompletedFlights :: "FlightScheduler \<Rightarrow> FlightScheduler" where
  "moveCompletedFlights s =
     s\<lparr>completedFlights :=
         completedFlights s @ filter (\<lambda>f. isCompleted (allFlights s ! f)) (activeFlights s),
       activeFlights := filter (\<lambda>f. \<not> isCompleted (allFlights s ! f)) (activeFlights s)\<rparr>"

definition updateSimulation :: "FlightScheduler \<Rightarrow> Globals \<Rightarrow> (FlightScheduler \<times> Globals) option" where
  "updateSimulation s g =
     (case generateFlights (s\<lparr>currentSimulationTime := currentSimulationTime s + 1\<rparr>) g of
        None \<Rightarrow> None
      | Some (s1, g1) \<Rightarrow>
          (case updateFlights (assignRunways s1) g1 of
             (s2, g2) \<Rightarrow> Some (moveCompletedFlights s2, g2)))"

text \<open>
  \<^verbatim>\<open>processAVNPayment\<close>: the first notice of the ledger with the given id is paid when
  the amount covers its total.
\<close>

fun processAVNPayment_loop :: "int \<Rightarrow> rat \<Rightarrow> nat list \<Rightarrow> AVN list \<Rightarrow> AVN list" where
  "processAVNPayment_loop avnId amount [] heap = heap"
| "processAVNPayment_loop avnId amount (v # vs) heap =
     (if id_avn (heap ! v) = avnId then
        (if amount \<ge> totalAmount (heap ! v) then heap[v := (heap ! v)\<lparr>status := PAID\<rparr>]
         else heap)
      else processAVNPayment_loop avnId amount vs heap)"

definition processAVNPayment :: "int \<Rightarrow> rat \<Rightarrow> FlightScheduler \<Rightarrow> Globals \<Rightarrow> Globals" where
  "processAVNPayment avnId amount s g =
     g\<lparr>avnHeap := processAVNPayment_loop avnId amount (allAVNs s) (avnHeap g)\<rparr>"

text \<open>
  The states of the running program: \<^verbatim>\<open>main\<close> constructs the scheduler and then calls
  \<^verbatim>\<open>updateSimulation\<close> and \<^verbatim>\<open>processAVNPayment\<close> on it, for any behaviour of the
  random engine and of the clock.
\<close>

inductive reachable :: "FlightScheduler \<times> Globals \<Rightarrow> bool" where
  init: "reachable (FlightScheduler_ctor, initial_globals rnd clk)"
| tick: "reachable (s, g) \<Longrightarrow> updateSimulation s g = Some (s', g') \<Longrightarrow> reachable (s', g')"
| pay: "reachable (s, g) \<Longrightarrow> reachable (s, processAVNPayment avnId amount s g)"

section \<open>Basic facts\<close>

lemma c_div_nonneg: "0 \<le> a \<Longrightarrow> 0 < b \<Longrightarrow> c_div a b = a div b"
  by (cases "a = 0") (simp_all add: c_div_def sgn_if)

lemma uniform_int_distribution_range:
  "a \<le> b \<Longrightarrow> a \<le> fst (uniform_int_distribution a b g) \<and> fst (uniform_int_distribution a b g) \<le> b"
proof -
  assume "a \<le> b"
  then have "0 < nat (b - a + 1)" by simp
  then have "gen g (genPos g) mod nat (b - a + 1) < nat (b - a + 1)"
    by (rule mod_less_divisor)
  then show ?thesis by (simp add: uniform_int_distribution_def)
qed

lemma uniform_int_distribution_frame [simp]:
  "avnHeap (snd (uniform_int_distribution a b g)) = avnHeap g"
  "ArrivalFlight_avnIdCounter (snd (uniform_int_distribution a b g)) = ArrivalFlight_avnIdCounter g"
  "DepartureFlight_avnIdCounter (snd (uniform_int_distribution a b g)) = DepartureFlight_avnIdCounter g"
  "atcToAvn (snd (uniform_int_distribution a b g)) = atcToAvn g"
  "nextId (snd (uniform_int_distribution a b g)) = nextId g"
  by (simp_all add: uniform_int_distribution_def)

lemma read_clock_frame [simp]:
  "avnHeap (snd (read_clock g)) = avnHeap g"
  "ArrivalFlight_avnIdCounter (snd (read_clock g)) = ArrivalFlight_avnIdCounter g"
  "DepartureFlight_avnIdCounter (snd (read_clock g)) = DepartureFlight_avnIdCounter g"
  "atcToAvn (snd (read_clock g)) = atcToAvn g"
  "nextId (snd (read_clock g)) = nextId g"
  by (simp_all add: read_clock_def)

text \<open>What a constructor returns.\<close>

definition fresh :: "string \<Rightarrow> FlightType \<Rightarrow> Direction \<Rightarrow> int \<Rightarrow> Aircraft \<Rightarrow> bool" where
  "fresh al t d p f =
     (airline f = al \<and> type f = t \<and> direction f = d \<and> priority f = p
      \<and> \<not> hasActiveViolation f \<and> currentViolation f = None \<and> assignedRunway f = NONE
      \<and> \<not> isEmergency f \<and> violatedStates f = {} \<and> \<not> maintainViolationSpeed f
      \<and> stateTime f = 0)"

lemma ArrivalFlight_ctor_fresh:
  "fresh al t d p (fst (ArrivalFlight_ctor fn al t d p sched g))"
  "state (fst (ArrivalFlight_ctor fn al t d p sched g)) = Arrival HOLDING"
  "HOLDING_MIN_SPEED \<le> currentSpeed (fst (ArrivalFlight_ctor fn al t d p sched g))"
  "currentSpeed (fst (ArrivalFlight_ctor fn al t d p sched g)) \<le> HOLDING_MAX_SPEED"
  using uniform_int_distribution_range[of HOLDING_MIN_SPEED HOLDING_MAX_SPEED]
  by (simp_all add: ArrivalFlight_ctor_def Aircraft_ctor_def fresh_def split_beta Let_def
      HOLDING_MIN_SPEED_def HOLDING_MAX_SPEED_def)

lemma DepartureFlight_ctor_fresh:
  "fresh al t d p (fst (DepartureFlight_ctor fn al t d p sched g))"
  "state (fst (DepartureFlight_ctor fn al t d p sched g)) = Departure DepartureState.AT_GATE"
  "currentSpeed (fst (DepartureFlight_ctor fn al t d p sched g)) = 0"
  by (simp_all add: DepartureFlight_ctor_def Aircraft_ctor_def fresh_def split_beta Let_def)

lemma ctor_frame [simp]:
  "avnHeap (snd (ArrivalFlight_ctor fn al t d p sched g)) = avnHeap g"
  "ArrivalFlight_avnIdCounter (snd (ArrivalFlight_ctor fn al t d p sched g)) = ArrivalFlight_avnIdCounter g"
  "DepartureFlight_avnIdCounter (snd (ArrivalFlight_ctor fn al t d p sched g)) = DepartureFlight_avnIdCounter g"
  "atcToAvn (snd (ArrivalFlight_ctor fn al t d p sched g)) = atcToAvn g"
  "avnHeap (snd (DepartureFlight_ctor fn al t d p sched g)) = avnHeap g"
  "ArrivalFlight_avnIdCounter (snd (DepartureFlight_ctor fn al t d p sched g)) = ArrivalFlight_avnIdCounter g"
  "DepartureFlight_avnIdCounter (snd (DepartureFlight_ctor fn al t d p sched g)) = DepartureFlight_avnIdCounter g"
  "atcToAvn (snd (DepartureFlight_ctor fn al t d p sched g)) = atcToAvn g"
  by (simp_all add: ArrivalFlight_ctor_def DepartureFlight_ctor_def Aircraft_ctor_def split_beta Let_def)

lemma spawnFlight_Some:
  assumes "spawnFlight prob sp base arr d s g = Some (s', g')"
  shows "\<exists>f e al. fresh al (flightTypeOf e al sp) d (priorityOf e (flightTypeOf e al sp))
               (f\<lparr>isEmergency := False\<rparr>)
           \<and> isEmergency f = e \<and> al \<in> set (airlineNames s)
           \<and> (if arr then state f = Arrival HOLDING \<and> currentSpeed f \<le> HOLDING_MAX_SPEED
               else state f = Departure DepartureState.AT_GATE \<and> currentSpeed f = 0)
           \<and> s' = (if arr
                   then s\<lparr>allFlights := allFlights s @ [f],
                          activeFlights := activeFlights s @ [length (allFlights s)],
                          runwayAQueue := runwayAQueue s @ [length (allFlights s)]\<rparr>
                   else s\<lparr>allFlights := allFlights s @ [f],
                          activeFlights := activeFlights s @ [length (allFlights s)],
                          runwayBQueue := runwayBQueue s @ [length (allFlights s)]\<rparr>)
           \<and> avnHeap g' = avnHeap g
           \<and> ArrivalFlight_avnIdCounter g' = ArrivalFlight_avnIdCounter g
           \<and> DepartureFlight_avnIdCounter g' = DepartureFlight_avnIdCounter g
           \<and> atcToAvn g' = atcToAvn g"
proof -
  let ?names = "airlineNames s"
  let ?g1 = "snd (uniform_int_distribution 1 100 g)"
  let ?e = "fst (uniform_int_distribution 1 100 g) \<le> prob"
  let ?i = "fst (uniform_int_distribution 0 (int (length ?names) - 1) ?g1)"
  from assms have ne: "?names \<noteq> []"
    by (auto simp: spawnFlight_def Let_def split_beta split: if_splits)
  then have "0 \<le> ?i \<and> ?i \<le> int (length ?names) - 1"
    using uniform_int_distribution_range[of 0 "int (length ?names) - 1" ?g1]
    by (cases ?names) simp_all
  then have mem: "?names ! nat ?i \<in> set ?names"
    by (intro nth_mem) linarith
  show ?thesis
  proof (cases arr)
    case True
    with assms ne mem show ?thesis
      using ArrivalFlight_ctor_fresh
      apply (simp add: spawnFlight_def Let_def split_beta pq_push_def)
      apply (rule exI[of _ "_\<lparr>isEmergency := ?e\<rparr>"])
      apply (rule exI[of _ "?names ! nat ?i"])
      apply (auto simp: fresh_def)
      done
  next
    case False
    with assms ne mem show ?thesis
      using DepartureFlight_ctor_fresh
      apply (simp add: spawnFlight_def Let_def split_beta pq_push_def)
      apply (rule exI[of _ "_\<lparr>isEmergency := ?e\<rparr>"])
      apply (rule exI[of _ "?names ! nat ?i"])
      apply (auto simp: fresh_def)
      done
  qed
qed

lemma airlines_init:
  "airlines FlightScheduler_ctor =
     [(''AghaKhan Air Ambulance'', Airline_ctor ''AghaKhan Air Ambulance'' 2 1),
      (''AirBlue'', Airline_ctor ''AirBlue'' 4 4),
      (''Blue Dart'', Airline_ctor ''Blue Dart'' 2 2),
      (''FedEx'', Airline_ctor ''FedEx'' 3 2),
      (''PIA'', Airline_ctor ''PIA'' 6 4),
      (''Pakistan Airforce'', Airline_ctor ''Pakistan Airforce'' 2 1)]"
  by (simp add: FlightScheduler_ctor_def less_char_def)

lemma airlineNames_init:
  "airlines s = airlines FlightScheduler_ctor \<Longrightarrow>
   airlineNames s =
     [''AghaKhan Air Ambulance'', ''AirBlue'', ''Blue Dart'', ''FedEx'', ''PIA'', ''Pakistan Airforce'']"
  by (simp add: airlineNames_def airlines_init Airline_ctor_def)

lemma FlightScheduler_ctor_fields:
  "allFlights FlightScheduler_ctor = []" "activeFlights FlightScheduler_ctor = []"
  "completedFlights FlightScheduler_ctor = []" "allAVNs FlightScheduler_ctor = []"
  "currentSimulationTime FlightScheduler_ctor = 0"
  "lastNorthArrival FlightScheduler_ctor = 0" "lastSouthArrival FlightScheduler_ctor = 0"
  "lastEastDeparture FlightScheduler_ctor = 0" "lastWestDeparture FlightScheduler_ctor = 0"
  "runwayAAvailable FlightScheduler_ctor" "runwayBAvailable FlightScheduler_ctor"
  "runwayCAvailable FlightScheduler_ctor"
  "runwayAQueue FlightScheduler_ctor = []" "runwayBQueue FlightScheduler_ctor = []"
  "runwayCQueue FlightScheduler_ctor = []"
  "runwayAOccupant FlightScheduler_ctor = None" "runwayBOccupant FlightScheduler_ctor = None"
  "runwayCOccupant FlightScheduler_ctor = None"
  "runwayAFreeTime FlightScheduler_ctor = 0" "runwayBFreeTime FlightScheduler_ctor = 0"
  "runwayCFreeTime FlightScheduler_ctor = 0"
  by (simp_all add: FlightScheduler_ctor_def)

lemma generateFlights_rule:
  assumes gen: "generateFlights s g = Some (s', g')"
    and P: "P s g"
    and north: "\<And>s g t. P s g \<Longrightarrow> P (s\<lparr>lastNorthArrival := t\<rparr>) g"
    and south: "\<And>s g t. P s g \<Longrightarrow> P (s\<lparr>lastSouthArrival := t\<rparr>) g"
    and east: "\<And>s g t. P s g \<Longrightarrow> P (s\<lparr>lastEastDeparture := t\<rparr>) g"
    and west: "\<And>s g t. P s g \<Longrightarrow> P (s\<lparr>lastWestDeparture := t\<rparr>) g"
    and spawn: "\<And>prob sp base arr d s g s' g'.
                  P s g \<Longrightarrow> spawnFlight prob sp base arr d s g = Some (s', g') \<Longrightarrow> P s' g'"
  shows "P s' g'"
proof -
  from gen obtain s1 g1 s2 g2 s3 g3 where
    1: "generateNorth s g = Some (s1, g1)" and 2: "generateSouth s1 g1 = Some (s2, g2)"
    and 3: "generateEast s2 g2 = Some (s3, g3)" and 4: "generateWest s3 g3 = Some (s', g')"
    by (auto simp: generateFlights_def split: option.splits)
  have p1: "P s1 g1"
  proof (cases "ARRIVAL_NORTH_INTERVAL \<le> currentSimulationTime s - lastNorthArrival s \<or> currentSimulationTime s = 1")
    case True
    with 1 have "spawnFlight NORTH_EMERGENCY_PROBABILITY [''Pakistan Airforce''] 1000 True NORTH (s\<lparr>lastNorthArrival := currentSimulationTime s\<rparr>) g = Some (s1, g1)"
      by (simp add: generateNorth_def)
    from spawn[OF north[OF P] this] show ?thesis .
  next
    case False
    with 1 P show ?thesis by (simp add: generateNorth_def)
  qed
  have p2: "P s2 g2"
  proof (cases "ARRIVAL_SOUTH_INTERVAL \<le> currentSimulationTime s1 - lastSouthArrival s1 \<or> currentSimulationTime s1 = 2")
    case True
    with 2 have "spawnFlight SOUTH_EMERGENCY_PROBABILITY [''AghaKhan Air Ambulance''] 1000 True SOUTH (s1\<lparr>lastSouthArrival := currentSimulationTime s1\<rparr>) g1 = Some (s2, g2)"
      by (simp add: generateSouth_def)
    from spawn[OF south[OF p1] this] show ?thesis .
  next
    case False
    with 2 p1 show ?thesis by (simp add: generateSouth_def)
  qed
  have p3: "P s3 g3"
  proof (cases "DEPARTURE_EAST_INTERVAL \<le> currentSimulationTime s2 - lastEastDeparture s2 \<or> currentSimulationTime s2 = 3")
    case True
    with 3 have "spawnFlight EAST_EMERGENCY_PROBABILITY [''Pakistan Airforce''] 2000 False EAST (s2\<lparr>lastEastDeparture := currentSimulationTime s2\<rparr>) g2 = Some (s3, g3)"
      by (simp add: generateEast_def)
    from spawn[OF east[OF p2] this] show ?thesis .
  next
    case False
    with 3 p2 show ?thesis by (simp add: generateEast_def)
  qed
  show "P s' g'"
  proof (cases "DEPARTURE_WEST_INTERVAL \<le> currentSimulationTime s3 - lastWestDeparture s3 \<or> currentSimulationTime s3 = 4")
    case True
    with 4 have "spawnFlight WEST_EMERGENCY_PROBABILITY [] 2000 False WEST (s3\<lparr>lastWestDeparture := currentSimulationTime s3\<rparr>) g3 = Some (s', g')"
      by (simp add: generateWest_def)
    from spawn[OF west[OF p3] this] show ?thesis .
  next
    case False
    with 4 p3 show ?thesis by (simp add: generateWest_def)
  qed
qed

section \<open>Properties of the notice constructor\<close>

lemma AVN_amounts_are_doubles:
  "serviceFee (AVN_ctor i al fn COMMERCIAL sp lo hi now) = 5033165000000 / 2 ^ 26"
  "totalAmount (AVN_ctor i al fn COMMERCIAL sp lo hi now) = 38587597000000 / 2 ^ 26"
  "t \<noteq> COMMERCIAL \<Longrightarrow> serviceFee (AVN_ctor i al fn t sp lo hi now) = 7046431000000 / 2 ^ 26"
  "t \<noteq> COMMERCIAL \<Longrightarrow> totalAmount (AVN_ctor i al fn t sp lo hi now) = 54022635800000 / 2 ^ 26"
  "(54022635800000 :: int) < 2 ^ 53"
  by (simp_all add: AVN_ctor_def Let_def SERVICE_FEE_PERCENTAGE_def COMMERCIAL_FINE_def
      CARGO_FINE_def)

text \<open>
  Claim C9. Every notice has, when it is created: the flat fine of its category
  (500000 for Commercial, 700000 for Cargo; the constructor also charges 700000 for every
  other category), a service fee of 15 percent of the fine and a total of 1.15 times the
  fine, both after rounding to the hundredth the program prints (the unrounded fee is the
  fine times the binary32 constant, 75000.00298... for a Commercial notice), a total that
  is exactly fine plus fee, a due date three days (259200 seconds) after the issue time,
  and the status Unpaid.
\<close>

theorem AVN_ctor_amounts:
  "fineAmount (AVN_ctor i al fn COMMERCIAL sp lo hi now) = 500000
   \<and> fineAmount (AVN_ctor i al fn CARGO sp lo hi now) = 700000
   \<and> fineAmount (AVN_ctor i al fn t sp lo hi now) = (if t = COMMERCIAL then 500000 else 700000)
   \<and> round_currency (serviceFee (AVN_ctor i al fn t sp lo hi now))
       = fineAmount (AVN_ctor i al fn t sp lo hi now) * 15 / 100
   \<and> totalAmount (AVN_ctor i al fn t sp lo hi now)
       = fineAmount (AVN_ctor i al fn t sp lo hi now) + serviceFee (AVN_ctor i al fn t sp lo hi now)
   \<and> round_currency (totalAmount (AVN_ctor i al fn t sp lo hi now))
       = fineAmount (AVN_ctor i al fn t sp lo hi now) * 115 / 100
   \<and> issueTime (AVN_ctor i al fn t sp lo hi now) = now
   \<and> dueDate (AVN_ctor i al fn t sp lo hi now)
       = issueTime (AVN_ctor i al fn t sp lo hi now) + 259200
   \<and> status (AVN_ctor i al fn t sp lo hi now) = UNPAID"
  by (simp add: AVN_ctor_def Let_def SERVICE_FEE_PERCENTAGE_def COMMERCIAL_FINE_def
      CARGO_FINE_def round_currency_def round_def floor_eq_iff)


section \<open>Priorities of generated flights\<close>

text \<open>
  Claim C8 says that an aircraft of category Emergency has priority 3. The first tick of
  a run with an emergency draw of 51 (no emergency on the North stream) and the airline
  draw 5 spawns a Pakistan Airforce arrival: its type is Emergency by the airline rule,
  and its priority is 1.
\<close>

theorem priority_counterexample:
  "(case generateFlights (FlightScheduler_ctor\<lparr>currentSimulationTime := 1\<rparr>)
           (initial_globals (\<lambda>n. if n = 0 then 50 else 5) (\<lambda>n. 0)) of
      Some (s, g) \<Rightarrow> length (allFlights s) = 1 \<and> airline (allFlights s ! 0) = ''Pakistan Airforce''
          \<and> type (allFlights s ! 0) = EMERGENCY \<and> priority (allFlights s ! 0) = 1
    | None \<Rightarrow> False)"
  by (simp add: generateFlights_def generateNorth_def generateSouth_def generateEast_def
      generateWest_def spawnFlight_def airlineNames_init FlightScheduler_ctor_fields
      initial_globals_def uniform_int_distribution_def read_clock_def ArrivalFlight_ctor_def
      Aircraft_ctor_def flightTypeOf_def priorityOf_def config_defs Let_def pq_push_def)

definition priorityRule :: "Aircraft \<Rightarrow> bool" where
  "priorityRule f =
     (priority f = (if isEmergency f then 3 else if type f = CARGO then 2 else 1)
      \<and> (isEmergency f \<longrightarrow> type f = EMERGENCY))"

lemma spawnFlight_priority:
  assumes "spawnFlight prob sp base arr d s g = Some (s', g')"
  shows "\<exists>f. allFlights s' = allFlights s @ [f] \<and> priorityRule f"
proof -
  from spawnFlight_Some[OF assms] obtain f e al where
    f: "fresh al (flightTypeOf e al sp) d (priorityOf e (flightTypeOf e al sp)) (f\<lparr>isEmergency := False\<rparr>)"
       "isEmergency f = e"
    and s': "allFlights s' = allFlights s @ [f]"
    by (auto split: if_splits)
  from f have "priorityRule f"
    by (auto simp: fresh_def priorityRule_def priorityOf_def flightTypeOf_def Let_def)
  with s' show ?thesis by blast
qed

text \<open>
  Claim C8, amended. Every aircraft that \<^verbatim>\<open>generateFlights\<close> creates has priority 3 when
  its emergency flag is set (the stream's emergency draw; its type is then Emergency),
  otherwise 2 when its type is Cargo and 1 otherwise. So a Cargo aircraft has priority 2,
  a Commercial one 1, and an aircraft whose type is Emergency has priority 3 with the flag
  and 1 without it (the type then comes from the airline).
\<close>

theorem generateFlights_priority:
  assumes "generateFlights s g = Some (s', g')"
  shows "\<exists>new. allFlights s' = allFlights s @ new
           \<and> (\<forall>f \<in> set new.
                 priority f = (if isEmergency f then 3 else if type f = CARGO then 2 else 1)
                 \<and> (isEmergency f \<longrightarrow> type f = EMERGENCY)
                 \<and> (type f = CARGO \<longrightarrow> priority f = 2)
                 \<and> (type f = COMMERCIAL \<longrightarrow> priority f = 1)
                 \<and> (type f = EMERGENCY \<longrightarrow> priority f = (if isEmergency f then 3 else 1)))"
proof -
  have "\<exists>new. allFlights s' = allFlights s @ new \<and> (\<forall>f \<in> set new. priorityRule f)"
  proof (rule generateFlights_rule[OF assms,
        where P = "\<lambda>s1 g1. \<exists>new. allFlights s1 = allFlights s @ new \<and> (\<forall>f \<in> set new. priorityRule f)"],
      goal_cases)
    case 1
    show ?case by simp
  next
    case (6 prob sp base arr d s1 g1 s2 g2)
    then obtain new where n: "allFlights s1 = allFlights s @ new" "\<forall>f \<in> set new. priorityRule f"
      by blast
    from spawnFlight_priority[OF 6(2)] obtain f where
      "allFlights s2 = allFlights s1 @ [f]" "priorityRule f" by blast
    with n show ?case by (intro exI[of _ "new @ [f]"]) simp
  qed simp_all
  then show ?thesis
    by (auto simp: priorityRule_def)
qed


definition priority_example_globals :: Globals where
  "priority_example_globals = initial_globals (\<lambda>n. if n = 0 then 50 else 3) (\<lambda>n. 0)"

theorem generateFlights_priority_witness:
  "\<exists>s' g'. generateFlights (FlightScheduler_ctor\<lparr>currentSimulationTime := 1\<rparr>)
              priority_example_globals = Some (s', g')
     \<and> length (allFlights s') = 1 \<and> airline (allFlights s' ! 0) = ''FedEx''
     \<and> type (allFlights s' ! 0) = CARGO \<and> priority (allFlights s' ! 0) = 2"
proof -
  let ?s = "FlightScheduler_ctor\<lparr>currentSimulationTime := 1\<rparr>"
  have ev: "case generateFlights ?s priority_example_globals of
      Some (s', g') \<Rightarrow> length (allFlights s') = 1 \<and> airline (allFlights s' ! 0) = ''FedEx''
          \<and> type (allFlights s' ! 0) = CARGO
    | None \<Rightarrow> False"
    by (simp add: generateFlights_def generateNorth_def generateSouth_def generateEast_def
      generateWest_def spawnFlight_def airlineNames_init FlightScheduler_ctor_fields
      priority_example_globals_def
      initial_globals_def uniform_int_distribution_def read_clock_def ArrivalFlight_ctor_def
      Aircraft_ctor_def flightTypeOf_def config_defs Let_def pq_push_def)
  then obtain s' g' where g: "generateFlights ?s priority_example_globals = Some (s', g')"
    and l: "length (allFlights s') = 1" "airline (allFlights s' ! 0) = ''FedEx''"
      "type (allFlights s' ! 0) = CARGO"
    by (auto split: option.splits)
  from generateFlights_priority[OF g] l have "priority (allFlights s' ! 0) = 2"
    by (auto simp: FlightScheduler_ctor_fields length_Suc_conv)
  with g l show ?thesis by blast
qed

section \<open>Facts about the allocation loops\<close>

lemma try_simps:
  "tryRunwayA a s = (if runwayAEligible s then
        (s\<lparr>runwayAAvailable := False, runwayAOccupant := Some a,
           allFlights := (allFlights s)[a := (allFlights s ! a)\<lparr>assignedRunway := RWY_A\<rparr>]\<rparr>, True)
      else (s, False))"
  "tryRunwayB a s = (if runwayBEligible s then
        (s\<lparr>runwayBAvailable := False, runwayBOccupant := Some a,
           allFlights := (allFlights s)[a := (allFlights s ! a)\<lparr>assignedRunway := RWY_B\<rparr>]\<rparr>, True)
      else (s, False))"
  "tryRunwayC a s = (if runwayCEligible s then
        (s\<lparr>runwayCAvailable := False, runwayCOccupant := Some a,
           allFlights := (allFlights s)[a := (allFlights s ! a)\<lparr>assignedRunway := RWY_C\<rparr>]\<rparr>, True)
      else (s, False))"
  by (simp_all add: tryRunwayA_def tryRunwayB_def tryRunwayC_def setAssignedRunway_def)

lemma Compare_irrefl: "\<not> CompareAircraftPriority a a"
  by (simp add: CompareAircraftPriority_def)

lemma Compare_asym: "CompareAircraftPriority a b \<Longrightarrow> \<not> CompareAircraftPriority b a"
  by (auto simp: CompareAircraftPriority_def split: if_splits)

lemma Compare_trans:
  "CompareAircraftPriority a b \<Longrightarrow> CompareAircraftPriority b c \<Longrightarrow> CompareAircraftPriority a c"
  by (auto simp: CompareAircraftPriority_def split: if_splits)

lemma Compare_neg_trans:
  "\<not> CompareAircraftPriority a b \<Longrightarrow> CompareAircraftPriority a c \<Longrightarrow> \<not> CompareAircraftPriority c b"
  by (auto simp: CompareAircraftPriority_def split: if_splits)

lemma pq_top_from_greatest:
  "\<forall>b \<in> set seen. \<not> CompareAircraftPriority (fs ! best) (fs ! b) \<Longrightarrow>
   \<forall>b \<in> set seen \<union> set (best # xs).
      \<not> CompareAircraftPriority (fs ! pq_top_from fs best xs) (fs ! b)"
proof (induction xs arbitrary: best seen)
  case Nil
  then show ?case by (simp add: Compare_irrefl)
next
  case (Cons x xs)
  let ?best' = "if CompareAircraftPriority (fs ! best) (fs ! x) then x else best"
  have "\<forall>b \<in> set (x # best # seen). \<not> CompareAircraftPriority (fs ! ?best') (fs ! b)"
    using Cons.prems by (auto simp: Compare_irrefl dest: Compare_neg_trans Compare_asym)
  from Cons.IH[OF this] show ?case by auto
qed

lemma pq_top_greatest:
  assumes "q \<noteq> []" and "b \<in> set q"
  shows "\<not> CompareAircraftPriority (fs ! pq_top fs q) (fs ! b)"
proof -
  from assms obtain x xs where q: "q = x # xs" by (cases q) auto
  have "\<forall>b \<in> set []. \<not> CompareAircraftPriority (fs ! x) (fs ! b)" by simp
  from pq_top_from_greatest[OF this, of xs] assms(2) q show ?thesis by auto
qed

lemma pq_top_order:
  assumes "q \<noteq> []" and "b \<in> set q"
  shows "priority (fs ! b) \<le> priority (fs ! pq_top fs q)
         \<and> (priority (fs ! b) = priority (fs ! pq_top fs q)
              \<longrightarrow> scheduledTime (fs ! pq_top fs q) \<le> scheduledTime (fs ! b))"
  using pq_top_greatest[OF assms, of fs]
  by (auto simp: CompareAircraftPriority_def split: if_splits)


lemma eligible_queue_upd [simp]:
  "runwayAEligible (s\<lparr>runwayAQueue := q\<rparr>) = runwayAEligible s"
  "runwayCEligible (s\<lparr>runwayAQueue := q\<rparr>) = runwayCEligible s"
  "runwayBEligible (s\<lparr>runwayBQueue := q\<rparr>) = runwayBEligible s"
  "runwayCEligible (s\<lparr>runwayBQueue := q\<rparr>) = runwayCEligible s"
  "runwayCEligible (s\<lparr>runwayCQueue := q\<rparr>) = runwayCEligible s"
  by (simp_all add: runwayAEligible_def runwayBEligible_def runwayCEligible_def)


section \<open>Runway preference of cargo flights\<close>

definition example_flight :: "FlightState \<Rightarrow> FlightType \<Rightarrow> Direction \<Rightarrow> int \<Rightarrow> int \<Rightarrow> Aircraft" where
  "example_flight st t d p sched =
     \<lparr> id_aircraft = 1000, flightNumber = ''XX-1000'', airline = ''PIA'', type = t,
       direction = d, priority = p, currentSpeed = 0, hasActiveViolation = False,
       currentViolation = None, scheduledTime = sched, assignedRunway = NONE,
       isEmergency = (p = 3), violatedStates = {}, maintainViolationSpeed = False,
       violationSpeed = 0, state = st, stateTime = 0 \<rparr>"

definition queueC_example :: FlightScheduler where
  "queueC_example =
     FlightScheduler_ctor
       \<lparr>allFlights := [example_flight (Arrival HOLDING) CARGO NORTH 2 10,
                       example_flight (Arrival HOLDING) CARGO SOUTH 2 20],
        activeFlights := [0, 1], currentSimulationTime := 5,
        runwayCQueue := [1, 0]\<rparr>"

definition cargo_run_globals :: Globals where
  "cargo_run_globals =
     initial_globals (\<lambda>n. if n = 1 then 4 else if n = 3 then 50 else if n = 4 then 3
                            else if n = 6 then 50 else 0) (\<lambda>n. 0)"

definition two_ticks :: "Globals \<Rightarrow> (FlightScheduler \<times> Globals) option" where
  "two_ticks g =
     (case updateSimulation FlightScheduler_ctor g of
        None \<Rightarrow> None
      | Some (s1, g1) \<Rightarrow> updateSimulation s1 g1)"

text \<open>
  Claim C6 says that a Cargo aircraft whose attempt at runway C fails is never given its
  native runway in that pass. Two ticks of a run: the first spawns an emergency arrival
  from the North, which takes runway C; the second spawns a FedEx (Cargo) arrival from
  the South, which finds runway C taken and is assigned runway A in the same pass.
\<close>

theorem cargo_native_fallback_counterexample:
  "(case two_ticks cargo_run_globals of
      Some (s, g) \<Rightarrow> length (allFlights s) = 2
          \<and> type (allFlights s ! 0) = EMERGENCY \<and> runwayCOccupant s = Some 0
          \<and> type (allFlights s ! 1) = CARGO \<and> direction (allFlights s ! 1) = SOUTH
          \<and> assignedRunway (allFlights s ! 1) = RWY_A \<and> runwayAOccupant s = Some 1
    | None \<Rightarrow> False)"
  by code_simp

text \<open>
  Claim C6, amended. An aircraft of type Emergency or Cargo popped from the queue of
  runway A (B) is offered runway C first and, when C is not eligible, its native runway
  A (B): a Cargo aircraft does fall back from C to its native runway. Every other
  aircraft is offered its native runway first and runway C when the native one is not
  eligible. Cargo is left out only of the second offer of runway C, which it has had
  already: whatever its type, an aircraft is assigned in the pass exactly when runway C
  or its native runway is eligible.
\<close>

theorem attempt_order:
  assumes "aircraft < length (allFlights s)"
  shows
   "assignedRunway (allFlights (fst (attemptA aircraft s)) ! aircraft) =
      (if type (allFlights s ! aircraft) = EMERGENCY \<or> type (allFlights s ! aircraft) = CARGO
       then (if runwayCEligible s then RWY_C
             else if (direction (allFlights s ! aircraft) = NORTH
                      \<or> direction (allFlights s ! aircraft) = SOUTH) \<and> runwayAEligible s
             then RWY_A else assignedRunway (allFlights s ! aircraft))
       else (if (direction (allFlights s ! aircraft) = NORTH
                 \<or> direction (allFlights s ! aircraft) = SOUTH) \<and> runwayAEligible s
             then RWY_A
             else if runwayCEligible s then RWY_C
             else assignedRunway (allFlights s ! aircraft)))
    \<and> assignedRunway (allFlights (fst (attemptB aircraft s)) ! aircraft) =
      (if type (allFlights s ! aircraft) = EMERGENCY \<or> type (allFlights s ! aircraft) = CARGO
       then (if runwayCEligible s then RWY_C
             else if (direction (allFlights s ! aircraft) = EAST
                      \<or> direction (allFlights s ! aircraft) = WEST) \<and> runwayBEligible s
             then RWY_B else assignedRunway (allFlights s ! aircraft))
       else (if (direction (allFlights s ! aircraft) = EAST
                 \<or> direction (allFlights s ! aircraft) = WEST) \<and> runwayBEligible s
             then RWY_B
             else if runwayCEligible s then RWY_C
             else assignedRunway (allFlights s ! aircraft)))
    \<and> snd (attemptA aircraft s)
        = (runwayCEligible s
           \<or> (direction (allFlights s ! aircraft) = NORTH
               \<or> direction (allFlights s ! aircraft) = SOUTH) \<and> runwayAEligible s)
    \<and> snd (attemptB aircraft s)
        = (runwayCEligible s
           \<or> (direction (allFlights s ! aircraft) = EAST
               \<or> direction (allFlights s ! aircraft) = WEST) \<and> runwayBEligible s)"
  using assms
  by (auto simp: attemptA_def attemptB_def try_simps runwayAEligible_def runwayBEligible_def
      runwayCEligible_def)


theorem attempt_order_witness:
  "1 < length (allFlights queueC_example)
   \<and> type (allFlights (queueC_example\<lparr>runwayCAvailable := False\<rparr>) ! 1) = CARGO
   \<and> \<not> runwayCEligible (queueC_example\<lparr>runwayCAvailable := False\<rparr>)
   \<and> assignedRunway
        (allFlights (fst (attemptA 1 (queueC_example\<lparr>runwayCAvailable := False\<rparr>))) ! 1) = RWY_A"
  using attempt_order[of 1 "queueC_example\<lparr>runwayCAvailable := False\<rparr>"]
  by (simp add: queueC_example_def FlightScheduler_ctor_fields example_flight_def
      runwayAEligible_def runwayCEligible_def)

section \<open>Facts about the state machines\<close>

text \<open>The fields of the globals that only the detector writes.\<close>

definition avnState :: "Globals \<Rightarrow> AVN list \<times> int \<times> int \<times> IPCMessage list" where
  "avnState g = (avnHeap g, ArrivalFlight_avnIdCounter g, DepartureFlight_avnIdCounter g, atcToAvn g)"

lemma avnState_draw [simp]:
  "avnState (snd (uniform_int_distribution a b g)) = avnState g"
  "avnState (snd (read_clock g)) = avnState g"
  by (simp_all add: avnState_def)

text \<open>The fields of an aircraft that neither the state machine nor the injection writes.\<close>

definition violationState :: "Aircraft \<Rightarrow> bool \<times> nat option \<times> string set" where
  "violationState a = (hasActiveViolation a, currentViolation a, violatedStates a)"

definition identity :: "Aircraft \<Rightarrow> int \<times> string \<times> string \<times> FlightType \<times> Direction \<times> int \<times> int \<times> Runway \<times> bool" where
  "identity a = (id_aircraft a, flightNumber a, airline a, type a, direction a, priority a,
                 scheduledTime a, assignedRunway a, isEmergency a)"

definition isArrival :: "Aircraft \<Rightarrow> bool" where
  "isArrival a = (case state a of Arrival st \<Rightarrow> True | Departure st \<Rightarrow> False)"

lemma ArrivalFlight_advance_frame:
  "avnState (snd (ArrivalFlight_advance st a g)) = avnState g"
  "violationState (fst (ArrivalFlight_advance st a g)) = violationState a"
  "identity (fst (ArrivalFlight_advance st a g)) = identity a"
  "isArrival a \<Longrightarrow> isArrival (fst (ArrivalFlight_advance st a g))"
  by (cases st; simp add: Let_def split_beta avnState_def violationState_def identity_def
      isArrival_def uniform_int_distribution_def)+

lemma DepartureFlight_advance_frame:
  "avnState (snd (DepartureFlight_advance st a g)) = avnState g"
  "violationState (fst (DepartureFlight_advance st a g)) = violationState a"
  "identity (fst (DepartureFlight_advance st a g)) = identity a"
  "\<not> isArrival a \<Longrightarrow> \<not> isArrival (fst (DepartureFlight_advance st a g))"
  by (cases st; simp add: Let_def split_beta avnState_def violationState_def identity_def
      isArrival_def uniform_int_distribution_def)+

lemma inject_frame:
  "avnState (snd (ArrivalFlight_inject a g)) = avnState g"
  "violationState (fst (ArrivalFlight_inject a g)) = violationState a"
  "identity (fst (ArrivalFlight_inject a g)) = identity a"
  "state (fst (ArrivalFlight_inject a g)) = state a"
  "avnState (snd (DepartureFlight_inject a g)) = avnState g"
  "violationState (fst (DepartureFlight_inject a g)) = violationState a"
  "identity (fst (DepartureFlight_inject a g)) = identity a"
  "state (fst (DepartureFlight_inject a g)) = state a"
  by (simp_all add: ArrivalFlight_inject_def DepartureFlight_inject_def Let_def split_beta
      avnState_def violationState_def identity_def uniform_int_distribution_def
      split: FlightState.split ArrivalState.split DepartureState.split)


lemma checkViolation_cases:
  assumes "checkViolation a g = (a', g')"
  shows "(a' = a \<and> g' = g) \<or>
   (\<exists>v. getStateString (state a) \<notin> violatedStates a
      \<and> a' = a\<lparr>hasActiveViolation := True, currentViolation := Some (length (avnHeap g)),
                violatedStates := insert (getStateString (state a)) (violatedStates a)\<rparr>
      \<and> avnHeap g' = avnHeap g @ [v]
      \<and> atcToAvn g' = atcToAvn g
      \<and> airline_avn v = airline a \<and> flightNumber_avn v = flightNumber a
      \<and> aircraftType v = type a
      \<and> (if isArrival a
          then id_avn v = ArrivalFlight_avnIdCounter g
               \<and> ArrivalFlight_avnIdCounter g' = ArrivalFlight_avnIdCounter g + 1
               \<and> DepartureFlight_avnIdCounter g' = DepartureFlight_avnIdCounter g
          else id_avn v = DepartureFlight_avnIdCounter g
               \<and> DepartureFlight_avnIdCounter g' = DepartureFlight_avnIdCounter g + 1
               \<and> ArrivalFlight_avnIdCounter g' = ArrivalFlight_avnIdCounter g))"
  using assms
  by (cases "state a")
    (auto simp: checkViolation_def ArrivalFlight_checkViolation_def
      DepartureFlight_checkViolation_def Let_def split_beta read_clock_def AVN_ctor_def
      isArrival_def split: if_splits)

lemma checkViolation_state: "state (fst (checkViolation a g)) = state a"
  using checkViolation_cases[OF surjective_pairing, of a g] by auto

definition beforeCheck :: "Aircraft \<Rightarrow> Globals \<Rightarrow> Aircraft \<times> Globals" where
  "beforeCheck a g =
     (case state a of
        Arrival st \<Rightarrow>
          (let a0 = a\<lparr>stateTime := stateTime a + 1\<rparr>;
               (a1, g1) = ArrivalFlight_advance st a0 g;
               a2 = (if state a0 \<noteq> state a1 then a1\<lparr>maintainViolationSpeed := False\<rparr> else a1)
           in ArrivalFlight_inject a2 g1)
      | Departure st \<Rightarrow>
          (let a0 = a\<lparr>stateTime := stateTime a + 1\<rparr>;
               (a1, g1) = DepartureFlight_advance st a0 g;
               a2 = (if state a0 \<noteq> state a1 then a1\<lparr>maintainViolationSpeed := False\<rparr> else a1)
           in DepartureFlight_inject a2 g1))"

lemma updateStatus_beforeCheck:
  "updateStatus a g = checkViolation (fst (beforeCheck a g)) (snd (beforeCheck a g))"
  by (simp add: updateStatus_def beforeCheck_def ArrivalFlight_updateStatus_def
      DepartureFlight_updateStatus_def Let_def split_beta split: FlightState.split)

lemma frame_upd [simp]:
  "violationState (a\<lparr>stateTime := t\<rparr>) = violationState a"
  "violationState (a\<lparr>maintainViolationSpeed := m\<rparr>) = violationState a"
  "identity (a\<lparr>stateTime := t\<rparr>) = identity a"
  "identity (a\<lparr>maintainViolationSpeed := m\<rparr>) = identity a"
  "isArrival (a\<lparr>stateTime := t\<rparr>) = isArrival a"
  "isArrival (a\<lparr>maintainViolationSpeed := m\<rparr>) = isArrival a"
  by (simp_all add: violationState_def identity_def isArrival_def)

lemma isArrival_state: "state a' = state a \<Longrightarrow> isArrival a' = isArrival a"
  by (simp add: isArrival_def)

lemma beforeCheck_frame:
  "avnState (snd (beforeCheck a g)) = avnState g"
  "violationState (fst (beforeCheck a g)) = violationState a"
  "identity (fst (beforeCheck a g)) = identity a"
  "isArrival (fst (beforeCheck a g)) = isArrival a"
proof -
  show "avnState (snd (beforeCheck a g)) = avnState g"
    by (simp add: beforeCheck_def Let_def split_beta inject_frame ArrivalFlight_advance_frame
        DepartureFlight_advance_frame split: FlightState.split)
  show "violationState (fst (beforeCheck a g)) = violationState a"
    by (simp add: beforeCheck_def Let_def split_beta inject_frame ArrivalFlight_advance_frame
        DepartureFlight_advance_frame split: FlightState.split)
  show "identity (fst (beforeCheck a g)) = identity a"
    by (simp add: beforeCheck_def Let_def split_beta inject_frame ArrivalFlight_advance_frame
        DepartureFlight_advance_frame split: FlightState.split)
  show "isArrival (fst (beforeCheck a g)) = isArrival a"
  proof (cases "state a")
    case (Arrival st)
    then have "isArrival a" by (simp add: isArrival_def)
    then have "isArrival (fst (ArrivalFlight_advance st (a\<lparr>stateTime := stateTime a + 1\<rparr>) g))"
      by (intro ArrivalFlight_advance_frame) simp
    with Arrival \<open>isArrival a\<close> show ?thesis
      by (simp add: beforeCheck_def Let_def split_beta isArrival_state[OF inject_frame(4)])
  next
    case (Departure st)
    then have "\<not> isArrival a" by (simp add: isArrival_def)
    then have "\<not> isArrival (fst (DepartureFlight_advance st (a\<lparr>stateTime := stateTime a + 1\<rparr>) g))"
      by (intro DepartureFlight_advance_frame) simp
    with Departure \<open>\<not> isArrival a\<close> show ?thesis
      by (simp add: beforeCheck_def Let_def split_beta isArrival_state[OF inject_frame(8)])
  qed
qed

text \<open>What one call of updateStatus does to the notices: nothing, or one new notice.\<close>

lemma updateStatus_cases:
  assumes "updateStatus a g = (a', g')"
  obtains (quiet) "avnState g' = avnState g" "violationState a' = violationState a"
      "identity a' = identity a" "isArrival a' = isArrival a"
  | (notice) v where "avnHeap g' = avnHeap g @ [v]" "atcToAvn g' = atcToAvn g"
      "violationState a' = (True, Some (length (avnHeap g)),
          insert (getStateString (state a')) (violatedStates a))"
      "getStateString (state a') \<notin> violatedStates a"
      "identity a' = identity a" "isArrival a' = isArrival a"
      "airline_avn v = airline a" "flightNumber_avn v = flightNumber a" "aircraftType v = type a"
      "if isArrival a
       then id_avn v = ArrivalFlight_avnIdCounter g
            \<and> ArrivalFlight_avnIdCounter g' = ArrivalFlight_avnIdCounter g + 1
            \<and> DepartureFlight_avnIdCounter g' = DepartureFlight_avnIdCounter g
       else id_avn v = DepartureFlight_avnIdCounter g
            \<and> DepartureFlight_avnIdCounter g' = DepartureFlight_avnIdCounter g + 1
            \<and> ArrivalFlight_avnIdCounter g' = ArrivalFlight_avnIdCounter g"
proof -
  let ?b = "fst (beforeCheck a g)" and ?h = "snd (beforeCheck a g)"
  have eq: "checkViolation ?b ?h = (a', g')"
    using assms by (simp add: updateStatus_beforeCheck)
  note fr = beforeCheck_frame[of a g]
  from checkViolation_cases[OF eq] show thesis
  proof
    assume "a' = ?b \<and> g' = ?h"
    with fr show thesis by (intro quiet) simp_all
  next
    assume "\<exists>v. getStateString (state ?b) \<notin> violatedStates ?b
      \<and> a' = ?b\<lparr>hasActiveViolation := True, currentViolation := Some (length (avnHeap ?h)),
                violatedStates := insert (getStateString (state ?b)) (violatedStates ?b)\<rparr>
      \<and> avnHeap g' = avnHeap ?h @ [v]
      \<and> atcToAvn g' = atcToAvn ?h
      \<and> airline_avn v = airline ?b \<and> flightNumber_avn v = flightNumber ?b
      \<and> aircraftType v = type ?b
      \<and> (if isArrival ?b
          then id_avn v = ArrivalFlight_avnIdCounter ?h
               \<and> ArrivalFlight_avnIdCounter g' = ArrivalFlight_avnIdCounter ?h + 1
               \<and> DepartureFlight_avnIdCounter g' = DepartureFlight_avnIdCounter ?h
          else id_avn v = DepartureFlight_avnIdCounter ?h
               \<and> DepartureFlight_avnIdCounter g' = DepartureFlight_avnIdCounter ?h + 1
               \<and> ArrivalFlight_avnIdCounter g' = ArrivalFlight_avnIdCounter ?h)"
    then obtain v where v: "getStateString (state ?b) \<notin> violatedStates ?b"
      "a' = ?b\<lparr>hasActiveViolation := True, currentViolation := Some (length (avnHeap ?h)),
                violatedStates := insert (getStateString (state ?b)) (violatedStates ?b)\<rparr>"
      "avnHeap g' = avnHeap ?h @ [v]" "atcToAvn g' = atcToAvn ?h"
      "airline_avn v = airline ?b" "flightNumber_avn v = flightNumber ?b"
      "aircraftType v = type ?b"
      "if isArrival ?b
          then id_avn v = ArrivalFlight_avnIdCounter ?h
               \<and> ArrivalFlight_avnIdCounter g' = ArrivalFlight_avnIdCounter ?h + 1
               \<and> DepartureFlight_avnIdCounter g' = DepartureFlight_avnIdCounter ?h
          else id_avn v = DepartureFlight_avnIdCounter ?h
               \<and> DepartureFlight_avnIdCounter g' = DepartureFlight_avnIdCounter ?h + 1
               \<and> ArrivalFlight_avnIdCounter g' = ArrivalFlight_avnIdCounter ?h"
      by blast
    from fr have h: "avnHeap ?h = avnHeap g" "atcToAvn ?h = atcToAvn g"
      "ArrivalFlight_avnIdCounter ?h = ArrivalFlight_avnIdCounter g"
      "DepartureFlight_avnIdCounter ?h = DepartureFlight_avnIdCounter g"
      "violatedStates ?b = violatedStates a" "airline ?b = airline a"
      "flightNumber ?b = flightNumber a" "type ?b = type a"
      by (simp_all add: avnState_def violationState_def identity_def)
    have st: "state a' = state ?b" "identity a' = identity ?b" "isArrival a' = isArrival ?b"
      using v(2) by (simp_all add: identity_def isArrival_def)
    show thesis
    proof (rule notice[of v])
      show "violationState a' = (True, Some (length (avnHeap g)),
          insert (getStateString (state a')) (violatedStates a))"
        using v(2) h by (simp add: violationState_def)
    qed (use v h st fr in simp_all)
  qed
qed

section \<open>One notice per aircraft and phase\<close>

text \<open>
  Everything that happens to one aircraft during its life. Before an update the allocator
  may have given it a runway or released it; the update runs with the globals of that
  moment; afterwards \<^verbatim>\<open>updateFlights\<close> may have forwarded the violation and cleared
  it. \<open>lifetime\<close> lists the phases in which an update created a notice.
\<close>

fun lifetime :: "Aircraft \<Rightarrow> (Runway \<times> bool \<times> Globals) list \<Rightarrow> FlightState list" where
  "lifetime a [] = []"
| "lifetime a ((r, forwarded, g) # ticks) =
     (case updateStatus (a\<lparr>assignedRunway := r\<rparr>) g of
        (a', g') \<Rightarrow>
          (if length (avnHeap g') > length (avnHeap g) then [state a'] else [])
          @ lifetime (if forwarded
                      then a'\<lparr>hasActiveViolation := False, currentViolation := None\<rparr>
                      else a') ticks)"

lemma lifetime_phases:
  "distinct (map getStateString (lifetime a ticks))
   \<and> (\<forall>p \<in> set (lifetime a ticks). getStateString p \<notin> violatedStates a)"
proof (induction ticks arbitrary: a)
  case Nil
  show ?case by simp
next
  case (Cons t ticks)
  obtain r forwarded g where t: "t = (r, forwarded, g)" by (cases t) auto
  obtain a' g' where u: "updateStatus (a\<lparr>assignedRunway := r\<rparr>) g = (a', g')"
    by (cases "updateStatus (a\<lparr>assignedRunway := r\<rparr>) g") auto
  let ?a'' = "if forwarded then a'\<lparr>hasActiveViolation := False, currentViolation := None\<rparr> else a'"
  note IH = Cons.IH[of ?a'']
  from u show ?case
  proof (cases rule: updateStatus_cases)
    case quiet
    then have "avnHeap g' = avnHeap g" "violatedStates ?a'' = violatedStates a"
      by (simp_all add: avnState_def violationState_def)
    with IH show ?thesis by (simp add: t u)
  next
    case (notice v)
    then have "violatedStates ?a'' = insert (getStateString (state a')) (violatedStates a)"
      by (simp add: violationState_def)
    with IH notice(1,4) show ?thesis by (auto simp: t u)
  qed
qed

text \<open>
  Claim C3. Over the life of an aircraft no two notices are created in the same phase,
  and none in a phase that is already in its set of violated states; and in a phase that
  has produced a notice (its name is in that set) the detector returns without creating
  a notice or changing the aircraft or the globals.
\<close>

theorem one_notice_per_phase:
  "distinct (lifetime a ticks)
   \<and> (\<forall>p \<in> set (lifetime a ticks). getStateString p \<notin> violatedStates a)
   \<and> (getStateString (state a) \<in> violatedStates a \<longrightarrow> checkViolation a g = (a, g))"
proof (intro conjI)
  show "distinct (lifetime a ticks)"
    using lifetime_phases[of a ticks] by (simp add: distinct_map)
  show "\<forall>p \<in> set (lifetime a ticks). getStateString p \<notin> violatedStates a"
    using lifetime_phases[of a ticks] by simp
  show "getStateString (state a) \<in> violatedStates a \<longrightarrow> checkViolation a g = (a, g)"
    by (simp add: checkViolation_def ArrivalFlight_checkViolation_def
        DepartureFlight_checkViolation_def split: FlightState.split)
qed


definition holding_example :: Aircraft where
  "holding_example =
     fst (ArrivalFlight_ctor ''PI-1000'' ''PIA'' COMMERCIAL NORTH 1 0
            (initial_globals (\<lambda>n. 0) (\<lambda>n. 0)))"

definition injecting_globals :: Globals where
  "injecting_globals = initial_globals (\<lambda>n. if n = 2 then 35 else 0) (\<lambda>n. 0)"

theorem one_notice_per_phase_witness:
  "lifetime holding_example [(NONE, True, injecting_globals), (NONE, True, injecting_globals)]
     = [Arrival HOLDING]
   \<and> currentSpeed (fst (updateStatus holding_example injecting_globals)) = 640
   \<and> getStateString (state (fst (updateStatus holding_example injecting_globals)))
       \<in> violatedStates (fst (updateStatus holding_example injecting_globals))
   \<and> checkViolation (fst (updateStatus holding_example injecting_globals)) injecting_globals
       = (fst (updateStatus holding_example injecting_globals), injecting_globals)"
proof -
  have 1: "lifetime holding_example
             [(NONE, True, injecting_globals), (NONE, True, injecting_globals)]
           = [Arrival HOLDING]"
    by code_simp
  have 2: "currentSpeed (fst (updateStatus holding_example injecting_globals)) = 640"
    by code_simp
  have 3: "getStateString (state (fst (updateStatus holding_example injecting_globals)))
       \<in> violatedStates (fst (updateStatus holding_example injecting_globals))"
    by code_simp
  from one_notice_per_phase[of "fst (updateStatus holding_example injecting_globals)"
      "[(NONE, True, injecting_globals)]" injecting_globals] 1 2 3
  show ?thesis by simp
qed

section \<open>Rules for the loops of the scheduler\<close>

lemma processRunwayAQueue_rule:
  assumes "P s t"
    and skip: "\<And>s t a. P s t \<Longrightarrow> runwayAQueue s \<noteq> [] \<Longrightarrow>
                 a = pq_top (allFlights s) (runwayAQueue s) \<Longrightarrow>
                 assignedRunway (allFlights s ! a) \<noteq> NONE \<Longrightarrow>
                 P (s\<lparr>runwayAQueue := pq_pop (allFlights s) (runwayAQueue s)\<rparr>) (pq_push t a)"
    and att: "\<And>s t a. P s t \<Longrightarrow> runwayAQueue s \<noteq> [] \<Longrightarrow>
                 a = pq_top (allFlights s) (runwayAQueue s) \<Longrightarrow>
                 assignedRunway (allFlights s ! a) = NONE \<Longrightarrow>
                 P (fst (attemptA a (s\<lparr>runwayAQueue := pq_pop (allFlights s) (runwayAQueue s)\<rparr>)))
                   (if \<not> snd (attemptA a (s\<lparr>runwayAQueue := pq_pop (allFlights s) (runwayAQueue s)\<rparr>))
                    then pq_push t a else t)"
  shows "P (fst (processRunwayAQueue s t)) (snd (processRunwayAQueue s t))"
  using assms(1)
proof (induction s t rule: processRunwayAQueue.induct)
  case (1 s t)
  show ?case
  proof (cases "runwayAQueue s = []")
    case True
    with "1.prems" show ?thesis by (subst (1 2) processRunwayAQueue.simps) simp
  next
    case False
    let ?a = "pq_top (allFlights s) (runwayAQueue s)"
    let ?s0 = "s\<lparr>runwayAQueue := pq_pop (allFlights s) (runwayAQueue s)\<rparr>"
    show ?thesis
    proof (cases "assignedRunway (allFlights s ! ?a) = NONE")
      case True
      have eq: "processRunwayAQueue s t
                = processRunwayAQueue (fst (attemptA ?a ?s0))
                    (if \<not> snd (attemptA ?a ?s0) then pq_push t ?a else t)"
        using False True by (subst processRunwayAQueue.simps) (simp add: Let_def split_beta)
      have "P (fst (attemptA ?a ?s0)) (if \<not> snd (attemptA ?a ?s0) then pq_push t ?a else t)"
        using att[OF "1.prems" False refl True] .
      moreover have "\<not> assignedRunway (allFlights ?s0 ! ?a) \<noteq> NONE"
        using True by simp
      ultimately show ?thesis
        unfolding eq using "1.IH"(2)[OF False refl refl _ prod.collapse] by blast
    next
      case nf: False
      have eq: "processRunwayAQueue s t = processRunwayAQueue ?s0 (pq_push t ?a)"
        using False nf by (subst processRunwayAQueue.simps) (simp add: Let_def)
      have "P ?s0 (pq_push t ?a)"
        using skip[OF "1.prems" False refl nf] .
      moreover have "assignedRunway (allFlights ?s0 ! ?a) \<noteq> NONE"
        using nf by simp
      ultimately show ?thesis
        unfolding eq using "1.IH"(1)[OF False refl refl] by blast
    qed
  qed
qed

lemma processRunwayBQueue_rule:
  assumes "P s t"
    and skip: "\<And>s t a. P s t \<Longrightarrow> runwayBQueue s \<noteq> [] \<Longrightarrow>
                 a = pq_top (allFlights s) (runwayBQueue s) \<Longrightarrow>
                 assignedRunway (allFlights s ! a) \<noteq> NONE \<Longrightarrow>
                 P (s\<lparr>runwayBQueue := pq_pop (allFlights s) (runwayBQueue s)\<rparr>) (pq_push t a)"
    and att: "\<And>s t a. P s t \<Longrightarrow> runwayBQueue s \<noteq> [] \<Longrightarrow>
                 a = pq_top (allFlights s) (runwayBQueue s) \<Longrightarrow>
                 assignedRunway (allFlights s ! a) = NONE \<Longrightarrow>
                 P (fst (attemptB a (s\<lparr>runwayBQueue := pq_pop (allFlights s) (runwayBQueue s)\<rparr>)))
                   (if \<not> snd (attemptB a (s\<lparr>runwayBQueue := pq_pop (allFlights s) (runwayBQueue s)\<rparr>))
                    then pq_push t a else t)"
  shows "P (fst (processRunwayBQueue s t)) (snd (processRunwayBQueue s t))"
  using assms(1)
proof (induction s t rule: processRunwayBQueue.induct)
  case (1 s t)
  show ?case
  proof (cases "runwayBQueue s = []")
    case True
    with "1.prems" show ?thesis by (subst (1 2) processRunwayBQueue.simps) simp
  next
    case False
    let ?a = "pq_top (allFlights s) (runwayBQueue s)"
    let ?s0 = "s\<lparr>runwayBQueue := pq_pop (allFlights s) (runwayBQueue s)\<rparr>"
    show ?thesis
    proof (cases "assignedRunway (allFlights s ! ?a) = NONE")
      case True
      have eq: "processRunwayBQueue s t
                = processRunwayBQueue (fst (attemptB ?a ?s0))
                    (if \<not> snd (attemptB ?a ?s0) then pq_push t ?a else t)"
        using False True by (subst processRunwayBQueue.simps) (simp add: Let_def split_beta)
      have "P (fst (attemptB ?a ?s0)) (if \<not> snd (attemptB ?a ?s0) then pq_push t ?a else t)"
        using att[OF "1.prems" False refl True] .
      moreover have "\<not> assignedRunway (allFlights ?s0 ! ?a) \<noteq> NONE"
        using True by simp
      ultimately show ?thesis
        unfolding eq using "1.IH"(2)[OF False refl refl _ prod.collapse] by blast
    next
      case nf: False
      have eq: "processRunwayBQueue s t = processRunwayBQueue ?s0 (pq_push t ?a)"
        using False nf by (subst processRunwayBQueue.simps) (simp add: Let_def)
      have "P ?s0 (pq_push t ?a)"
        using skip[OF "1.prems" False refl nf] .
      moreover have "assignedRunway (allFlights ?s0 ! ?a) \<noteq> NONE"
        using nf by simp
      ultimately show ?thesis
        unfolding eq using "1.IH"(1)[OF False refl refl] by blast
    qed
  qed
qed

lemma processRunwayCQueue_rule:
  assumes "P s t"
    and skip: "\<And>s t a. P s t \<Longrightarrow> runwayCQueue s \<noteq> [] \<Longrightarrow>
                 a = pq_top (allFlights s) (runwayCQueue s) \<Longrightarrow>
                 assignedRunway (allFlights s ! a) \<noteq> NONE \<Longrightarrow>
                 P (s\<lparr>runwayCQueue := pq_pop (allFlights s) (runwayCQueue s)\<rparr>) (pq_push t a)"
    and att: "\<And>s t a. P s t \<Longrightarrow> runwayCQueue s \<noteq> [] \<Longrightarrow>
                 a = pq_top (allFlights s) (runwayCQueue s) \<Longrightarrow>
                 assignedRunway (allFlights s ! a) = NONE \<Longrightarrow>
                 P (fst (attemptC a (s\<lparr>runwayCQueue := pq_pop (allFlights s) (runwayCQueue s)\<rparr>)))
                   (if \<not> snd (attemptC a (s\<lparr>runwayCQueue := pq_pop (allFlights s) (runwayCQueue s)\<rparr>))
                    then pq_push t a else t)"
  shows "P (fst (processRunwayCQueue s t)) (snd (processRunwayCQueue s t))"
  using assms(1)
proof (induction s t rule: processRunwayCQueue.induct)
  case (1 s t)
  show ?case
  proof (cases "runwayCQueue s = []")
    case True
    with "1.prems" show ?thesis by (subst (1 2) processRunwayCQueue.simps) simp
  next
    case False
    let ?a = "pq_top (allFlights s) (runwayCQueue s)"
    let ?s0 = "s\<lparr>runwayCQueue := pq_pop (allFlights s) (runwayCQueue s)\<rparr>"
    show ?thesis
    proof (cases "assignedRunway (allFlights s ! ?a) = NONE")
      case True
      have eq: "processRunwayCQueue s t
                = processRunwayCQueue (fst (attemptC ?a ?s0))
                    (if \<not> snd (attemptC ?a ?s0) then pq_push t ?a else t)"
        using False True by (subst processRunwayCQueue.simps) (simp add: Let_def split_beta)
      have "P (fst (attemptC ?a ?s0)) (if \<not> snd (attemptC ?a ?s0) then pq_push t ?a else t)"
        using att[OF "1.prems" False refl True] .
      moreover have "\<not> assignedRunway (allFlights ?s0 ! ?a) \<noteq> NONE"
        using True by simp
      ultimately show ?thesis
        unfolding eq using "1.IH"(2)[OF False refl refl _ prod.collapse] by blast
    next
      case nf: False
      have eq: "processRunwayCQueue s t = processRunwayCQueue ?s0 (pq_push t ?a)"
        using False nf by (subst processRunwayCQueue.simps) (simp add: Let_def)
      have "P ?s0 (pq_push t ?a)"
        using skip[OF "1.prems" False refl nf] .
      moreover have "assignedRunway (allFlights ?s0 ! ?a) \<noteq> NONE"
        using nf by simp
      ultimately show ?thesis
        unfolding eq using "1.IH"(1)[OF False refl refl] by blast
    qed
  qed
qed


lemma attempt_cases:
  "attemptA a s = (s, False) \<or> attemptA a s = (fst (tryRunwayC a s), True)
   \<or> attemptA a s = (fst (tryRunwayA a s), True)"
  "attemptB a s = (s, False) \<or> attemptB a s = (fst (tryRunwayC a s), True)
   \<or> attemptB a s = (fst (tryRunwayB a s), True)"
  "attemptC a s = (s, False) \<or> attemptC a s = (fst (tryRunwayC a s), True)"
  by (auto simp: attemptA_def attemptB_def attemptC_def try_simps)

text \<open>
  A step that may only change the runway an aircraft is assigned to and the runway
  fields of the scheduler.
\<close>

definition onlyRunways :: "FlightScheduler \<Rightarrow> FlightScheduler \<Rightarrow> bool" where
  "onlyRunways s s' =
     (length (allFlights s') = length (allFlights s)
      \<and> (\<forall>i < length (allFlights s).
            allFlights s' ! i = (allFlights s ! i)\<lparr>assignedRunway := assignedRunway (allFlights s' ! i)\<rparr>)
      \<and> activeFlights s' = activeFlights s \<and> completedFlights s' = completedFlights s
      \<and> airlines s' = airlines s \<and> allAVNs s' = allAVNs s
      \<and> currentSimulationTime s' = currentSimulationTime s
      \<and> lastNorthArrival s' = lastNorthArrival s \<and> lastSouthArrival s' = lastSouthArrival s
      \<and> lastEastDeparture s' = lastEastDeparture s \<and> lastWestDeparture s' = lastWestDeparture s)"

lemma onlyRunways_refl: "onlyRunways s s"
  by (simp add: onlyRunways_def)

lemma onlyRunways_trans: "onlyRunways s s' \<Longrightarrow> onlyRunways s' s'' \<Longrightarrow> onlyRunways s s''"
  unfolding onlyRunways_def
  by (auto, metis (no_types, lifting) Aircraft.surjective Aircraft.update_convs(11))


lemma nth_upd_runway:
  "i < length fs \<Longrightarrow>
   fs[a := (fs ! a)\<lparr>assignedRunway := r\<rparr>] ! i
     = (fs ! i)\<lparr>assignedRunway := assignedRunway (fs[a := (fs ! a)\<lparr>assignedRunway := r\<rparr>] ! i)\<rparr>"
  by (cases "i = a") simp_all

lemma onlyRunways_try:
  "onlyRunways s (fst (tryRunwayA a s))"
  "onlyRunways s (fst (tryRunwayB a s))"
  "onlyRunways s (fst (tryRunwayC a s))"
  using nth_upd_runway by (auto simp: onlyRunways_def try_simps)

lemma onlyRunways_attempt:
  "onlyRunways s (fst (attemptA a s))"
  "onlyRunways s (fst (attemptB a s))"
  "onlyRunways s (fst (attemptC a s))"
  using attempt_cases[of a s] onlyRunways_try[of s a] onlyRunways_refl[of s]
  by auto

lemma onlyRunways_queue [simp]:
  "onlyRunways s0 (s\<lparr>runwayAQueue := q\<rparr>) = onlyRunways s0 s"
  "onlyRunways s0 (s\<lparr>runwayBQueue := q\<rparr>) = onlyRunways s0 s"
  "onlyRunways s0 (s\<lparr>runwayCQueue := q\<rparr>) = onlyRunways s0 s"
  "onlyRunways (s0\<lparr>runwayAQueue := q\<rparr>) s = onlyRunways s0 s"
  "onlyRunways (s0\<lparr>runwayBQueue := q\<rparr>) s = onlyRunways s0 s"
  "onlyRunways (s0\<lparr>runwayCQueue := q\<rparr>) s = onlyRunways s0 s"
  by (simp_all add: onlyRunways_def)

lemma onlyRunways_loops:
  "onlyRunways s (fst (processRunwayAQueue s t))"
  "onlyRunways s (fst (processRunwayBQueue s t))"
  "onlyRunways s (fst (processRunwayCQueue s t))"
proof -
  show "onlyRunways s (fst (processRunwayAQueue s t))"
  proof (rule processRunwayAQueue_rule[where P = "\<lambda>s' t'. onlyRunways s s'"], goal_cases)
    case (3 s1 t1 a)
    then show ?case
      using onlyRunways_attempt(1)[of "s1\<lparr>runwayAQueue := pq_pop (allFlights s1) (runwayAQueue s1)\<rparr>" a]
      by (auto intro: onlyRunways_trans)
  qed (simp_all add: onlyRunways_refl)
  show "onlyRunways s (fst (processRunwayBQueue s t))"
  proof (rule processRunwayBQueue_rule[where P = "\<lambda>s' t'. onlyRunways s s'"], goal_cases)
    case (3 s1 t1 a)
    then show ?case
      using onlyRunways_attempt(2)[of "s1\<lparr>runwayBQueue := pq_pop (allFlights s1) (runwayBQueue s1)\<rparr>" a]
      by (auto intro: onlyRunways_trans)
  qed (simp_all add: onlyRunways_refl)
  show "onlyRunways s (fst (processRunwayCQueue s t))"
  proof (rule processRunwayCQueue_rule[where P = "\<lambda>s' t'. onlyRunways s s'"], goal_cases)
    case (3 s1 t1 a)
    then show ?case
      using onlyRunways_attempt(3)[of "s1\<lparr>runwayCQueue := pq_pop (allFlights s1) (runwayCQueue s1)\<rparr>" a]
      by (auto intro: onlyRunways_trans)
  qed (simp_all add: onlyRunways_refl)
qed

lemma onlyRunways_release: "onlyRunways s (releaseRunwayOf f s)"
  using nth_upd_runway
  by (auto simp: onlyRunways_def releaseRunwayOf_def setAssignedRunway_def Let_def)

lemma onlyRunways_fold_release: "onlyRunways s (fold releaseRunwayOf fs s)"
proof (induction fs arbitrary: s)
  case Nil
  show ?case by (simp add: onlyRunways_refl)
next
  case (Cons f fs)
  from onlyRunways_trans[OF onlyRunways_release[of s f] Cons.IH[of "releaseRunwayOf f s"]]
  show ?case by simp
qed

lemma onlyRunways_assignRunways: "onlyRunways s (assignRunways s)"
proof -
  let ?sA = "fst (processRunwayAQueue s [])"
  let ?sB = "fst (processRunwayBQueue ?sA [])"
  let ?sC = "fst (processRunwayCQueue ?sB [])"
  have "onlyRunways s ?sC"
    using onlyRunways_loops(1)[of s "[]"] onlyRunways_loops(2)[of ?sA "[]"]
      onlyRunways_loops(3)[of ?sB "[]"]
    by (blast intro: onlyRunways_trans)
  then have sc: "onlyRunways s ?sC" .
  let ?s1 = "?sC\<lparr>runwayAQueue := snd (processRunwayAQueue s []),
                   runwayBQueue := snd (processRunwayBQueue ?sA []),
                   runwayCQueue := snd (processRunwayCQueue ?sB [])\<rparr>"
  have "onlyRunways s ?s1" using sc by simp
  from onlyRunways_trans[OF this onlyRunways_fold_release[of ?s1 "activeFlights ?s1"]]
  show ?thesis
    by (simp add: assignRunways_def Let_def split_beta)
qed

section \<open>Runway occupancy\<close>

definition validRefs :: "FlightScheduler \<Rightarrow> bool" where
  "validRefs s =
     (\<forall>i \<in> set (activeFlights s) \<union> set (runwayAQueue s) \<union> set (runwayBQueue s)
            \<union> set (runwayCQueue s). i < length (allFlights s))"

text \<open>The runway fields of the scheduler, by runway.\<close>

definition occupant :: "FlightScheduler \<Rightarrow> Runway \<Rightarrow> nat option" where
  "occupant s r =
     (case r of RWY_A \<Rightarrow> runwayAOccupant s | RWY_B \<Rightarrow> runwayBOccupant s
              | RWY_C \<Rightarrow> runwayCOccupant s | NONE \<Rightarrow> None)"

definition available :: "FlightScheduler \<Rightarrow> Runway \<Rightarrow> bool" where
  "available s r =
     (case r of RWY_A \<Rightarrow> runwayAAvailable s | RWY_B \<Rightarrow> runwayBAvailable s
              | RWY_C \<Rightarrow> runwayCAvailable s | NONE \<Rightarrow> False)"

definition runwaysConsistent :: "FlightScheduler \<Rightarrow> bool" where
  "runwaysConsistent s =
     ((\<forall>r i. r \<noteq> NONE \<longrightarrow> i < length (allFlights s) \<longrightarrow>
          (assignedRunway (allFlights s ! i) = r) = (occupant s r = Some i))
      \<and> (\<forall>r i. occupant s r = Some i \<longrightarrow> i < length (allFlights s))
      \<and> (\<forall>r. r \<noteq> NONE \<longrightarrow> available s r = (occupant s r = None)))"

lemma occupant_eqI:
  "runwayAOccupant s' = runwayAOccupant s \<Longrightarrow> runwayBOccupant s' = runwayBOccupant s \<Longrightarrow>
   runwayCOccupant s' = runwayCOccupant s \<Longrightarrow> occupant s' = occupant s"
  by (simp add: occupant_def fun_eq_iff split: Runway.split)

lemma available_eqI:
  "runwayAAvailable s' = runwayAAvailable s \<Longrightarrow> runwayBAvailable s' = runwayBAvailable s \<Longrightarrow>
   runwayCAvailable s' = runwayCAvailable s \<Longrightarrow> available s' = available s"
  by (simp add: available_def fun_eq_iff split: Runway.split)

lemma consistent_cong:
  "allFlights s' = allFlights s \<Longrightarrow> occupant s' = occupant s \<Longrightarrow> available s' = available s
   \<Longrightarrow> runwaysConsistent s' = runwaysConsistent s"
  by (simp add: runwaysConsistent_def)

lemma view_queue [simp]:
  "occupant (s\<lparr>runwayAQueue := q\<rparr>) = occupant s"
  "occupant (s\<lparr>runwayBQueue := q\<rparr>) = occupant s"
  "occupant (s\<lparr>runwayCQueue := q\<rparr>) = occupant s"
  "available (s\<lparr>runwayAQueue := q\<rparr>) = available s"
  "available (s\<lparr>runwayBQueue := q\<rparr>) = available s"
  "available (s\<lparr>runwayCQueue := q\<rparr>) = available s"
  by (simp_all add: occupant_def available_def fun_eq_iff split: Runway.split)

lemma consistent_queue [simp]:
  "runwaysConsistent (s\<lparr>runwayAQueue := q\<rparr>) = runwaysConsistent s"
  "runwaysConsistent (s\<lparr>runwayBQueue := q\<rparr>) = runwaysConsistent s"
  "runwaysConsistent (s\<lparr>runwayCQueue := q\<rparr>) = runwaysConsistent s"
  by (rule consistent_cong; simp)+

lemma consistent_assign:
  assumes c: "runwaysConsistent s" and a: "a < length (allFlights s)"
    and u: "assignedRunway (allFlights s ! a) = NONE"
    and r: "r \<noteq> NONE" and free: "occupant s r = None"
    and fs: "allFlights s' = (allFlights s)[a := (allFlights s ! a)\<lparr>assignedRunway := r\<rparr>]"
    and oc: "occupant s' = (occupant s)(r := Some a)"
    and av: "available s' = (available s)(r := False)"
  shows "runwaysConsistent s'"
proof -
  have notocc: "\<And>r'. occupant s r' \<noteq> Some a"
  proof
    fix r' assume o: "occupant s r' = Some a"
    then have "r' \<noteq> NONE" by (auto simp: occupant_def)
    with c a o have "assignedRunway (allFlights s ! a) = r'"
      by (simp add: runwaysConsistent_def)
    with u \<open>r' \<noteq> NONE\<close> show False by simp
  qed
  have nobody: "\<And>i. i < length (allFlights s) \<Longrightarrow> assignedRunway (allFlights s ! i) \<noteq> r"
    using c r free by (simp add: runwaysConsistent_def)
  show ?thesis
    unfolding runwaysConsistent_def
  proof (intro conjI allI impI)
    fix r' i assume "r' \<noteq> NONE" and "i < length (allFlights s')"
    then show "(assignedRunway (allFlights s' ! i) = r') = (occupant s' r' = Some i)"
      using c a notocc[of r'] nobody[of i]
      by (cases "i = a"; cases "r' = r") (auto simp: fs oc runwaysConsistent_def)
  next
    fix r' i assume "occupant s' r' = Some i"
    then show "i < length (allFlights s')"
      using c a by (cases "r' = r") (auto simp: fs oc runwaysConsistent_def)
  next
    fix r' assume "r' \<noteq> NONE"
    then show "available s' r' = (occupant s' r' = None)"
      using c by (cases "r' = r") (auto simp: oc av runwaysConsistent_def)
  qed
qed

lemma consistent_release:
  assumes c: "runwaysConsistent s" and a: "a < length (allFlights s)"
    and u: "assignedRunway (allFlights s ! a) = r" and r: "r \<noteq> NONE"
    and fs: "allFlights s' = (allFlights s)[a := (allFlights s ! a)\<lparr>assignedRunway := NONE\<rparr>]"
    and oc: "occupant s' = (occupant s)(r := None)"
    and av: "available s' = (available s)(r := True)"
  shows "runwaysConsistent s'"
proof -
  have occ: "occupant s r = Some a"
    using c a u r by (simp add: runwaysConsistent_def)
  have notocc: "\<And>r'. r' \<noteq> r \<Longrightarrow> occupant s r' \<noteq> Some a"
  proof
    fix r' assume "r' \<noteq> r" and o: "occupant s r' = Some a"
    then have "r' \<noteq> NONE" by (auto simp: occupant_def)
    with c a o have "assignedRunway (allFlights s ! a) = r'"
      by (simp add: runwaysConsistent_def)
    with u \<open>r' \<noteq> r\<close> show False by simp
  qed
  have nobody: "\<And>i. i < length (allFlights s) \<Longrightarrow> i \<noteq> a \<Longrightarrow> assignedRunway (allFlights s ! i) \<noteq> r"
    using c r occ by (simp add: runwaysConsistent_def)
  show ?thesis
    unfolding runwaysConsistent_def
  proof (intro conjI allI impI)
    fix r' i assume "r' \<noteq> NONE" and "i < length (allFlights s')"
    then show "(assignedRunway (allFlights s' ! i) = r') = (occupant s' r' = Some i)"
      using c a notocc[of r'] nobody[of i]
      by (cases "i = a"; cases "r' = r") (auto simp: fs oc runwaysConsistent_def)
  next
    fix r' i assume "occupant s' r' = Some i"
    then show "i < length (allFlights s')"
      using c a by (cases "r' = r") (auto simp: fs oc runwaysConsistent_def)
  next
    fix r' assume "r' \<noteq> NONE"
    then show "available s' r' = (occupant s' r' = None)"
      using c by (cases "r' = r") (auto simp: oc av runwaysConsistent_def)
  qed
qed

lemma try_views:
  "runwayAEligible s \<Longrightarrow> occupant (fst (tryRunwayA a s)) = (occupant s)(RWY_A := Some a)"
  "runwayAEligible s \<Longrightarrow> available (fst (tryRunwayA a s)) = (available s)(RWY_A := False)"
  "runwayBEligible s \<Longrightarrow> occupant (fst (tryRunwayB a s)) = (occupant s)(RWY_B := Some a)"
  "runwayBEligible s \<Longrightarrow> available (fst (tryRunwayB a s)) = (available s)(RWY_B := False)"
  "runwayCEligible s \<Longrightarrow> occupant (fst (tryRunwayC a s)) = (occupant s)(RWY_C := Some a)"
  "runwayCEligible s \<Longrightarrow> available (fst (tryRunwayC a s)) = (available s)(RWY_C := False)"
  by (simp_all add: fun_eq_iff occupant_def available_def try_simps split: Runway.split)

lemma eligible_free:
  assumes "runwaysConsistent s"
  shows "runwayAEligible s \<Longrightarrow> occupant s RWY_A = None"
    and "runwayBEligible s \<Longrightarrow> occupant s RWY_B = None"
    and "runwayCEligible s \<Longrightarrow> occupant s RWY_C = None"
proof -
  from assms have av: "\<And>r. r \<noteq> NONE \<Longrightarrow> available s r = (occupant s r = None)"
    by (simp add: runwaysConsistent_def)
  show "runwayAEligible s \<Longrightarrow> occupant s RWY_A = None"
    using av[of RWY_A] by (simp add: runwayAEligible_def available_def)
  show "runwayBEligible s \<Longrightarrow> occupant s RWY_B = None"
    using av[of RWY_B] by (simp add: runwayBEligible_def available_def)
  show "runwayCEligible s \<Longrightarrow> occupant s RWY_C = None"
    using av[of RWY_C] by (simp add: runwayCEligible_def available_def)
qed


lemma try_flights:
  "runwayAEligible s \<Longrightarrow>
   allFlights (fst (tryRunwayA a s)) = (allFlights s)[a := (allFlights s ! a)\<lparr>assignedRunway := RWY_A\<rparr>]"
  "runwayBEligible s \<Longrightarrow>
   allFlights (fst (tryRunwayB a s)) = (allFlights s)[a := (allFlights s ! a)\<lparr>assignedRunway := RWY_B\<rparr>]"
  "runwayCEligible s \<Longrightarrow>
   allFlights (fst (tryRunwayC a s)) = (allFlights s)[a := (allFlights s ! a)\<lparr>assignedRunway := RWY_C\<rparr>]"
  by (simp_all add: try_simps)

lemma consistent_try:
  assumes "runwaysConsistent s" and "a < length (allFlights s)"
    and "assignedRunway (allFlights s ! a) = NONE"
  shows "runwaysConsistent (fst (tryRunwayA a s))"
    and "runwaysConsistent (fst (tryRunwayB a s))"
    and "runwaysConsistent (fst (tryRunwayC a s))"
proof -
  show "runwaysConsistent (fst (tryRunwayA a s))"
  proof (cases "runwayAEligible s")
    case True
    from consistent_assign[OF assms _ eligible_free(1)[OF assms(1) True]
        try_flights(1)[OF True] try_views(1)[OF True] try_views(2)[OF True]]
    show ?thesis by simp
  next
    case False
    with assms(1) show ?thesis by (simp add: try_simps)
  qed
  show "runwaysConsistent (fst (tryRunwayB a s))"
  proof (cases "runwayBEligible s")
    case True
    from consistent_assign[OF assms _ eligible_free(2)[OF assms(1) True]
        try_flights(2)[OF True] try_views(3)[OF True] try_views(4)[OF True]]
    show ?thesis by simp
  next
    case False
    with assms(1) show ?thesis by (simp add: try_simps)
  qed
  show "runwaysConsistent (fst (tryRunwayC a s))"
  proof (cases "runwayCEligible s")
    case True
    from consistent_assign[OF assms _ eligible_free(3)[OF assms(1) True]
        try_flights(3)[OF True] try_views(5)[OF True] try_views(6)[OF True]]
    show ?thesis by simp
  next
    case False
    with assms(1) show ?thesis by (simp add: try_simps)
  qed
qed

lemma consistent_attempt:
  assumes "runwaysConsistent s" and "a < length (allFlights s)"
    and "assignedRunway (allFlights s ! a) = NONE"
  shows "runwaysConsistent (fst (attemptA a s))"
    and "runwaysConsistent (fst (attemptB a s))"
    and "runwaysConsistent (fst (attemptC a s))"
  using attempt_cases[of a s] consistent_try[OF assms] assms(1)
  by auto

lemma set_pq_pop: "set (pq_pop fs q) \<subseteq> set q"
  by (simp add: pq_pop_def set_remove1_subset)

lemma onlyRunways_length: "onlyRunways s s' \<Longrightarrow> length (allFlights s') = length (allFlights s)"
  by (simp add: onlyRunways_def)

text \<open>The loops keep the occupancy consistent and re-queue only references they popped.\<close>

lemma consistent_loops:
  assumes "runwaysConsistent s"
  shows "\<forall>i \<in> set (runwayAQueue s) \<union> set t. i < length (allFlights s) \<Longrightarrow>
           runwaysConsistent (fst (processRunwayAQueue s t))
           \<and> (\<forall>i \<in> set (snd (processRunwayAQueue s t)). i < length (allFlights s))"
    and "\<forall>i \<in> set (runwayBQueue s) \<union> set t. i < length (allFlights s) \<Longrightarrow>
           runwaysConsistent (fst (processRunwayBQueue s t))
           \<and> (\<forall>i \<in> set (snd (processRunwayBQueue s t)). i < length (allFlights s))"
    and "\<forall>i \<in> set (runwayCQueue s) \<union> set t. i < length (allFlights s) \<Longrightarrow>
           runwaysConsistent (fst (processRunwayCQueue s t))
           \<and> (\<forall>i \<in> set (snd (processRunwayCQueue s t)). i < length (allFlights s))"
proof -
  let ?n = "length (allFlights s)"
  assume v: "\<forall>i \<in> set (runwayAQueue s) \<union> set t. i < ?n"
  let ?P = "\<lambda>s' t'. runwaysConsistent s' \<and> length (allFlights s') = ?n
                \<and> (\<forall>i \<in> set (runwayAQueue s') \<union> set t'. i < ?n)"
  have "?P (fst (processRunwayAQueue s t)) (snd (processRunwayAQueue s t))"
  proof (rule processRunwayAQueue_rule[where P = ?P], goal_cases)
    case 1
    from assms v show ?case by simp
  next
    case (2 s1 t1 a)
    then show ?case
      using set_pq_pop[of "allFlights s1" "runwayAQueue s1"] pq_top_mem[of "runwayAQueue s1" "allFlights s1"]
      by (auto simp: pq_push_def simp del: pq_top.simps)
  next
    case (3 s1 t1 a)
    let ?s0 = "s1\<lparr>runwayAQueue := pq_pop (allFlights s1) (runwayAQueue s1)\<rparr>"
    from 3 have a: "a \<in> set (runwayAQueue s1)" by (simp add: pq_top_mem del: pq_top.simps)
    with 3 have av: "a < length (allFlights ?s0)" by simp
    from 3 have c: "runwaysConsistent ?s0" "assignedRunway (allFlights ?s0 ! a) = NONE" by simp_all
    have "runwaysConsistent (fst (attemptA a ?s0))"
      by (rule consistent_attempt(1)[OF c(1) av c(2)])
    moreover have "length (allFlights (fst (attemptA a ?s0))) = ?n"
      using onlyRunways_length[OF onlyRunways_attempt(1)[of ?s0 a]] 3 by simp
    moreover have "runwayAQueue (fst (attemptA a ?s0)) = pq_pop (allFlights s1) (runwayAQueue s1)"
      by (simp add: attempt_queues)
    ultimately show ?case
      using 3 a set_pq_pop[of "allFlights s1" "runwayAQueue s1"]
      by (auto simp: pq_push_def simp del: pq_top.simps)
  qed
  then show "runwaysConsistent (fst (processRunwayAQueue s t))
           \<and> (\<forall>i \<in> set (snd (processRunwayAQueue s t)). i < length (allFlights s))"
    by simp
next
  let ?n = "length (allFlights s)"
  assume v: "\<forall>i \<in> set (runwayBQueue s) \<union> set t. i < ?n"
  let ?P = "\<lambda>s' t'. runwaysConsistent s' \<and> length (allFlights s') = ?n
                \<and> (\<forall>i \<in> set (runwayBQueue s') \<union> set t'. i < ?n)"
  have "?P (fst (processRunwayBQueue s t)) (snd (processRunwayBQueue s t))"
  proof (rule processRunwayBQueue_rule[where P = ?P], goal_cases)
    case 1
    from assms v show ?case by simp
  next
    case (2 s1 t1 a)
    then show ?case
      using set_pq_pop[of "allFlights s1" "runwayBQueue s1"] pq_top_mem[of "runwayBQueue s1" "allFlights s1"]
      by (auto simp: pq_push_def simp del: pq_top.simps)
  next
    case (3 s1 t1 a)
    let ?s0 = "s1\<lparr>runwayBQueue := pq_pop (allFlights s1) (runwayBQueue s1)\<rparr>"
    from 3 have a: "a \<in> set (runwayBQueue s1)" by (simp add: pq_top_mem del: pq_top.simps)
    with 3 have av: "a < length (allFlights ?s0)" by simp
    from 3 have c: "runwaysConsistent ?s0" "assignedRunway (allFlights ?s0 ! a) = NONE" by simp_all
    have "runwaysConsistent (fst (attemptB a ?s0))"
      by (rule consistent_attempt(2)[OF c(1) av c(2)])
    moreover have "length (allFlights (fst (attemptB a ?s0))) = ?n"
      using onlyRunways_length[OF onlyRunways_attempt(2)[of ?s0 a]] 3 by simp
    moreover have "runwayBQueue (fst (attemptB a ?s0)) = pq_pop (allFlights s1) (runwayBQueue s1)"
      by (simp add: attempt_queues)
    ultimately show ?case
      using 3 a set_pq_pop[of "allFlights s1" "runwayBQueue s1"]
      by (auto simp: pq_push_def simp del: pq_top.simps)
  qed
  then show "runwaysConsistent (fst (processRunwayBQueue s t))
           \<and> (\<forall>i \<in> set (snd (processRunwayBQueue s t)). i < length (allFlights s))"
    by simp
next
  let ?n = "length (allFlights s)"
  assume v: "\<forall>i \<in> set (runwayCQueue s) \<union> set t. i < ?n"
  let ?P = "\<lambda>s' t'. runwaysConsistent s' \<and> length (allFlights s') = ?n
                \<and> (\<forall>i \<in> set (runwayCQueue s') \<union> set t'. i < ?n)"
  have "?P (fst (processRunwayCQueue s t)) (snd (processRunwayCQueue s t))"
  proof (rule processRunwayCQueue_rule[where P = ?P], goal_cases)
    case 1
    from assms v show ?case by simp
  next
    case (2 s1 t1 a)
    then show ?case
      using set_pq_pop[of "allFlights s1" "runwayCQueue s1"] pq_top_mem[of "runwayCQueue s1" "allFlights s1"]
      by (auto simp: pq_push_def simp del: pq_top.simps)
  next
    case (3 s1 t1 a)
    let ?s0 = "s1\<lparr>runwayCQueue := pq_pop (allFlights s1) (runwayCQueue s1)\<rparr>"
    from 3 have a: "a \<in> set (runwayCQueue s1)" by (simp add: pq_top_mem del: pq_top.simps)
    with 3 have av: "a < length (allFlights ?s0)" by simp
    from 3 have c: "runwaysConsistent ?s0" "assignedRunway (allFlights ?s0 ! a) = NONE" by simp_all
    have "runwaysConsistent (fst (attemptC a ?s0))"
      by (rule consistent_attempt(3)[OF c(1) av c(2)])
    moreover have "length (allFlights (fst (attemptC a ?s0))) = ?n"
      using onlyRunways_length[OF onlyRunways_attempt(3)[of ?s0 a]] 3 by simp
    moreover have "runwayCQueue (fst (attemptC a ?s0)) = pq_pop (allFlights s1) (runwayCQueue s1)"
      by (simp add: attempt_queues)
    ultimately show ?case
      using 3 a set_pq_pop[of "allFlights s1" "runwayCQueue s1"]
      by (auto simp: pq_push_def simp del: pq_top.simps)
  qed
  then show "runwaysConsistent (fst (processRunwayCQueue s t))
           \<and> (\<forall>i \<in> set (snd (processRunwayCQueue s t)). i < length (allFlights s))"
    by simp
qed


lemma release_views:
  assumes "assignedRunway (allFlights s ! f) = r" and "r \<noteq> NONE"
    and "case state (allFlights s ! f) of
           Arrival st \<Rightarrow> st = ArrivalState.TAXI \<or> st = ArrivalState.AT_GATE
         | Departure st \<Rightarrow> st = CLIMB \<or> st = CRUISE"
  shows "allFlights (releaseRunwayOf f s)
           = (allFlights s)[f := (allFlights s ! f)\<lparr>assignedRunway := NONE\<rparr>]"
    and "occupant (releaseRunwayOf f s) = (occupant s)(r := None)"
    and "available (releaseRunwayOf f s) = (available s)(r := True)"
  using assms
  by (cases r; simp add: releaseRunwayOf_def setAssignedRunway_def Let_def fun_eq_iff
      occupant_def available_def split: Runway.split)+

lemma release_skip:
  "assignedRunway (allFlights s ! f) = NONE
   \<or> \<not> (case state (allFlights s ! f) of
           Arrival st \<Rightarrow> st = ArrivalState.TAXI \<or> st = ArrivalState.AT_GATE
         | Departure st \<Rightarrow> st = CLIMB \<or> st = CRUISE)
   \<Longrightarrow> releaseRunwayOf f s = s"
  by (auto simp: releaseRunwayOf_def Let_def)

lemma consistent_releaseRunwayOf:
  assumes "runwaysConsistent s" and "f < length (allFlights s)"
  shows "runwaysConsistent (releaseRunwayOf f s)"
proof (cases "assignedRunway (allFlights s ! f) = NONE
   \<or> \<not> (case state (allFlights s ! f) of
           Arrival st \<Rightarrow> st = ArrivalState.TAXI \<or> st = ArrivalState.AT_GATE
         | Departure st \<Rightarrow> st = CLIMB \<or> st = CRUISE)")
  case True
  from release_skip[OF this] assms(1) show ?thesis by simp
next
  case False
  then have r: "assignedRunway (allFlights s ! f) \<noteq> NONE"
    and st: "case state (allFlights s ! f) of
           Arrival st \<Rightarrow> st = ArrivalState.TAXI \<or> st = ArrivalState.AT_GATE
         | Departure st \<Rightarrow> st = CLIMB \<or> st = CRUISE"
    by simp_all
  note v = release_views[OF refl r st]
  show ?thesis
    by (rule consistent_release[OF assms refl r v])
qed

lemma consistent_fold_release:
  "runwaysConsistent s \<Longrightarrow> \<forall>f \<in> set fs. f < length (allFlights s) \<Longrightarrow>
   runwaysConsistent (fold releaseRunwayOf fs s)"
proof (induction fs arbitrary: s)
  case Nil
  then show ?case by simp
next
  case (Cons f fs)
  have "runwaysConsistent (releaseRunwayOf f s)"
    using Cons.prems by (intro consistent_releaseRunwayOf) simp_all
  moreover have "length (allFlights (releaseRunwayOf f s)) = length (allFlights s)"
    using onlyRunways_length[OF onlyRunways_release] .
  ultimately show ?case
    using Cons.IH[of "releaseRunwayOf f s"] Cons.prems by simp
qed

lemma release_queues [simp]:
  "runwayAQueue (releaseRunwayOf f s) = runwayAQueue s"
  "runwayBQueue (releaseRunwayOf f s) = runwayBQueue s"
  "runwayCQueue (releaseRunwayOf f s) = runwayCQueue s"
  by (simp_all add: releaseRunwayOf_def setAssignedRunway_def Let_def)

lemma fold_release_queues [simp]:
  "runwayAQueue (fold releaseRunwayOf fs s) = runwayAQueue s"
  "runwayBQueue (fold releaseRunwayOf fs s) = runwayBQueue s"
  "runwayCQueue (fold releaseRunwayOf fs s) = runwayCQueue s"
  by (induction fs arbitrary: s) simp_all

lemma loop_queues:
  "runwayBQueue (fst (processRunwayAQueue s t)) = runwayBQueue s"
  "runwayCQueue (fst (processRunwayAQueue s t)) = runwayCQueue s"
  "runwayCQueue (fst (processRunwayBQueue s t)) = runwayCQueue s"
proof -
  show "runwayBQueue (fst (processRunwayAQueue s t)) = runwayBQueue s"
    by (rule processRunwayAQueue_rule[where P = "\<lambda>s' t'. runwayBQueue s' = runwayBQueue s"])
      (simp_all add: attemptA_def try_simps split_beta)
  show "runwayCQueue (fst (processRunwayAQueue s t)) = runwayCQueue s"
    by (rule processRunwayAQueue_rule[where P = "\<lambda>s' t'. runwayCQueue s' = runwayCQueue s"])
      (simp_all add: attemptA_def try_simps split_beta)
  show "runwayCQueue (fst (processRunwayBQueue s t)) = runwayCQueue s"
    by (rule processRunwayBQueue_rule[where P = "\<lambda>s' t'. runwayCQueue s' = runwayCQueue s"])
      (simp_all add: attemptB_def try_simps split_beta)
qed

lemma consistent_assignRunways:
  assumes c: "runwaysConsistent s" and v: "validRefs s"
  shows "runwaysConsistent (assignRunways s) \<and> validRefs (assignRunways s)"
proof -
  let ?n = "length (allFlights s)"
  let ?sA = "fst (processRunwayAQueue s [])" and ?tA = "snd (processRunwayAQueue s [])"
  let ?sB = "fst (processRunwayBQueue ?sA [])" and ?tB = "snd (processRunwayBQueue ?sA [])"
  let ?sC = "fst (processRunwayCQueue ?sB [])" and ?tC = "snd (processRunwayCQueue ?sB [])"
  let ?s1 = "?sC\<lparr>runwayAQueue := ?tA, runwayBQueue := ?tB, runwayCQueue := ?tC\<rparr>"
  have oA: "onlyRunways s ?sA" and oB: "onlyRunways ?sA ?sB" and oC: "onlyRunways ?sB ?sC"
    by (rule onlyRunways_loops)+
  have nA: "length (allFlights ?sA) = ?n" using onlyRunways_length[OF oA] .
  have nB: "length (allFlights ?sB) = ?n" using onlyRunways_length[OF oB] nA by simp
  have nC: "length (allFlights ?sC) = ?n" using onlyRunways_length[OF oC] nB by simp
  from v have vq: "\<forall>i \<in> set (runwayAQueue s) \<union> set []. i < ?n"
    "\<forall>i \<in> set (runwayBQueue s). i < ?n" "\<forall>i \<in> set (runwayCQueue s). i < ?n"
    "\<forall>i \<in> set (activeFlights s). i < ?n"
    by (auto simp: validRefs_def)
  from consistent_loops(1)[OF c vq(1)] have A: "runwaysConsistent ?sA" "\<forall>i \<in> set ?tA. i < ?n"
    by simp_all
  have "\<forall>i \<in> set (runwayBQueue ?sA) \<union> set []. i < length (allFlights ?sA)"
    using vq(2) nA by (simp add: loop_queues)
  from consistent_loops(2)[OF A(1) this] have B: "runwaysConsistent ?sB" "\<forall>i \<in> set ?tB. i < ?n"
    using nA by simp_all
  have "\<forall>i \<in> set (runwayCQueue ?sB) \<union> set []. i < length (allFlights ?sB)"
    using vq(3) nB by (simp add: loop_queues)
  from consistent_loops(3)[OF B(1) this] have C: "runwaysConsistent ?sC" "\<forall>i \<in> set ?tC. i < ?n"
    using nB by simp_all
  have act: "activeFlights ?s1 = activeFlights s"
    using oA oB oC by (simp add: onlyRunways_def)
  have c1: "runwaysConsistent ?s1" using C(1) by simp
  have n1: "length (allFlights ?s1) = ?n" using nC by simp
  have r: "assignRunways s = fold releaseRunwayOf (activeFlights ?s1) ?s1"
    by (simp add: assignRunways_def Let_def split_beta)
  have "runwaysConsistent (assignRunways s)"
    unfolding r using vq(4) act n1 by (intro consistent_fold_release[OF c1]) simp
  moreover have "validRefs (assignRunways s)"
    using onlyRunways_assignRunways[of s] A(2) B(2) C(2) vq(4)
    unfolding validRefs_def
    by (auto simp: onlyRunways_def r)
  ultimately show ?thesis by simp
qed


text \<open>A step that leaves the runways, the queues and the assignments alone.\<close>

definition runwaysUntouched :: "FlightScheduler \<Rightarrow> FlightScheduler \<Rightarrow> bool" where
  "runwaysUntouched s s' =
     (length (allFlights s') = length (allFlights s)
      \<and> (\<forall>i < length (allFlights s). identity (allFlights s' ! i) = identity (allFlights s ! i))
      \<and> activeFlights s' = activeFlights s \<and> completedFlights s' = completedFlights s
      \<and> runwayAQueue s' = runwayAQueue s \<and> runwayBQueue s' = runwayBQueue s
      \<and> runwayCQueue s' = runwayCQueue s
      \<and> runwayAAvailable s' = runwayAAvailable s \<and> runwayBAvailable s' = runwayBAvailable s
      \<and> runwayCAvailable s' = runwayCAvailable s
      \<and> runwayAOccupant s' = runwayAOccupant s \<and> runwayBOccupant s' = runwayBOccupant s
      \<and> runwayCOccupant s' = runwayCOccupant s
      \<and> runwayAFreeTime s' = runwayAFreeTime s \<and> runwayBFreeTime s' = runwayBFreeTime s
      \<and> runwayCFreeTime s' = runwayCFreeTime s
      \<and> currentSimulationTime s' = currentSimulationTime s
      \<and> lastNorthArrival s' = lastNorthArrival s \<and> lastSouthArrival s' = lastSouthArrival s
      \<and> lastEastDeparture s' = lastEastDeparture s \<and> lastWestDeparture s' = lastWestDeparture s)"

lemma runwaysUntouched_refl: "runwaysUntouched s s"
  by (simp add: runwaysUntouched_def)

lemma runwaysUntouched_trans:
  "runwaysUntouched s s' \<Longrightarrow> runwaysUntouched s' s'' \<Longrightarrow> runwaysUntouched s s''"
  by (simp add: runwaysUntouched_def)

lemma updateStatus_identity: "identity (fst (updateStatus a g)) = identity a"
  by (rule updateStatus_cases[OF prod.collapse[symmetric, of "updateStatus a g"]]) simp_all

lemma identity_reset [simp]:
  "identity (a\<lparr>hasActiveViolation := h, currentViolation := c\<rparr>) = identity a"
  by (simp add: identity_def)

lemma runwaysUntouched_updateFlight: "runwaysUntouched s (fst (updateFlight f (s, g)))"
proof -
  have 1: "identity ((allFlights s)[f := fst (updateStatus (allFlights s ! f) g)] ! i)
            = identity (allFlights s ! i)" if "i < length (allFlights s)" for i
    using that by (cases "i = f") (simp_all add: updateStatus_identity)
  have 2: "identity ((allFlights s)[f := (fst (updateStatus (allFlights s ! f) g))
                       \<lparr>hasActiveViolation := h, currentViolation := c\<rparr>] ! i)
            = identity (allFlights s ! i)" if "i < length (allFlights s)" for i h c
    using that by (cases "i = f") (simp_all add: updateStatus_identity)
  show ?thesis
    by (simp add: updateFlight_def runwaysUntouched_def Let_def split_beta 1 2
        split: option.split)
qed

lemma fold_updateFlight_untouched:
  "runwaysUntouched s (fst (fold updateFlight fs (s, g)))"
proof (induction fs arbitrary: s g)
  case Nil
  show ?case by (simp add: runwaysUntouched_refl)
next
  case (Cons f fs)
  obtain s1 g1 where u: "updateFlight f (s, g) = (s1, g1)" by (cases "updateFlight f (s, g)") auto
  from runwaysUntouched_updateFlight[of s f g] u have "runwaysUntouched s s1" by simp
  from runwaysUntouched_trans[OF this Cons.IH[of s1 g1]] u show ?case by simp
qed

lemma runwaysUntouched_updateFlights: "runwaysUntouched s (fst (updateFlights s g))"
  by (simp add: updateFlights_def fold_updateFlight_untouched)

lemma untouched_views:
  assumes "runwaysUntouched s s'"
  shows "occupant s' = occupant s" "available s' = available s"
    "\<And>i. i < length (allFlights s) \<Longrightarrow>
        assignedRunway (allFlights s' ! i) = assignedRunway (allFlights s ! i)"
    "length (allFlights s') = length (allFlights s)"
proof -
  from assms show "occupant s' = occupant s"
    by (intro occupant_eqI) (simp_all add: runwaysUntouched_def)
  from assms show "available s' = available s"
    by (intro available_eqI) (simp_all add: runwaysUntouched_def)
  from assms show "length (allFlights s') = length (allFlights s)"
    by (simp add: runwaysUntouched_def)
  fix i assume "i < length (allFlights s)"
  with assms have "identity (allFlights s' ! i) = identity (allFlights s ! i)"
    by (simp add: runwaysUntouched_def)
  then show "assignedRunway (allFlights s' ! i) = assignedRunway (allFlights s ! i)"
    by (simp add: identity_def)
qed

lemma consistent_untouched:
  assumes "runwaysUntouched s s'" and "runwaysConsistent s" and "validRefs s"
  shows "runwaysConsistent s'" and "validRefs s'"
proof -
  note v = untouched_views[OF assms(1)]
  show "runwaysConsistent s'"
    using assms(2) v(3) unfolding runwaysConsistent_def v(1,2,4) by simp
  show "validRefs s'"
    using assms(1,3) by (simp add: validRefs_def runwaysUntouched_def)
qed

lemma consistent_moveCompletedFlights:
  assumes "runwaysConsistent s" and "validRefs s"
  shows "runwaysConsistent (moveCompletedFlights s)" and "validRefs (moveCompletedFlights s)"
proof -
  have "allFlights (moveCompletedFlights s) = allFlights s"
    "occupant (moveCompletedFlights s) = occupant s"
    "available (moveCompletedFlights s) = available s"
    by (simp add: moveCompletedFlights_def,
        (intro occupant_eqI; simp add: moveCompletedFlights_def),
        (intro available_eqI; simp add: moveCompletedFlights_def))
  from consistent_cong[OF this] assms(1) show "runwaysConsistent (moveCompletedFlights s)"
    by simp
  from assms(2) show "validRefs (moveCompletedFlights s)"
    by (auto simp: validRefs_def moveCompletedFlights_def)
qed

lemma consistent_spawnFlight:
  assumes sp: "spawnFlight prob sp base arr d s g = Some (s', g')"
    and c: "runwaysConsistent s" and v: "validRefs s"
  shows "runwaysConsistent s' \<and> validRefs s'"
proof -
  from spawnFlight_Some[OF sp] obtain f e al where
    f: "fresh al (flightTypeOf e al sp) d (priorityOf e (flightTypeOf e al sp)) (f\<lparr>isEmergency := False\<rparr>)"
    and s': "s' = (if arr
                   then s\<lparr>allFlights := allFlights s @ [f],
                          activeFlights := activeFlights s @ [length (allFlights s)],
                          runwayAQueue := runwayAQueue s @ [length (allFlights s)]\<rparr>
                   else s\<lparr>allFlights := allFlights s @ [f],
                          activeFlights := activeFlights s @ [length (allFlights s)],
                          runwayBQueue := runwayBQueue s @ [length (allFlights s)]\<rparr>)"
    by blast
  from f have u: "assignedRunway f = NONE" by (simp add: fresh_def)
  have fs: "allFlights s' = allFlights s @ [f]" using s' by simp
  have oc: "occupant s' = occupant s" "available s' = available s"
    using s' by ((intro occupant_eqI; simp), (intro available_eqI; simp))
  have "runwaysConsistent s'"
    unfolding runwaysConsistent_def oc fs
  proof (intro conjI allI impI)
    fix r i assume r: "r \<noteq> NONE" and i: "i < length (allFlights s @ [f])"
    show "(assignedRunway ((allFlights s @ [f]) ! i) = r) = (occupant s r = Some i)"
    proof (cases "i < length (allFlights s)")
      case True
      with c r show ?thesis by (simp add: runwaysConsistent_def nth_append)
    next
      case False
      with i have "i = length (allFlights s)" by simp
      moreover have "occupant s r \<noteq> Some (length (allFlights s))"
        using c by (auto simp: runwaysConsistent_def)
      ultimately show ?thesis using u r by (simp add: nth_append)
    qed
  next
    fix r i assume "occupant s r = Some i"
    with c have "i < length (allFlights s)" by (simp add: runwaysConsistent_def)
    then show "i < length (allFlights s @ [f])" by simp
  next
    fix r :: Runway assume "r \<noteq> NONE"
    with c show "available s r = (occupant s r = None)" by (simp add: runwaysConsistent_def)
  qed
  moreover have "validRefs s'"
    using v s' by (auto simp: validRefs_def less_Suc_eq)
  ultimately show ?thesis by simp
qed


lemma consistent_last [simp]:
  "runwaysConsistent (s\<lparr>lastNorthArrival := t\<rparr>) = runwaysConsistent s"
  "runwaysConsistent (s\<lparr>lastSouthArrival := t\<rparr>) = runwaysConsistent s"
  "runwaysConsistent (s\<lparr>lastEastDeparture := t\<rparr>) = runwaysConsistent s"
  "runwaysConsistent (s\<lparr>lastWestDeparture := t\<rparr>) = runwaysConsistent s"
  "runwaysConsistent (s\<lparr>currentSimulationTime := t\<rparr>) = runwaysConsistent s"
  by (rule consistent_cong; (intro occupant_eqI available_eqI)?; simp)+

lemma validRefs_last [simp]:
  "validRefs (s\<lparr>lastNorthArrival := t\<rparr>) = validRefs s"
  "validRefs (s\<lparr>lastSouthArrival := t\<rparr>) = validRefs s"
  "validRefs (s\<lparr>lastEastDeparture := t\<rparr>) = validRefs s"
  "validRefs (s\<lparr>lastWestDeparture := t\<rparr>) = validRefs s"
  "validRefs (s\<lparr>currentSimulationTime := t\<rparr>) = validRefs s"
  by (simp_all add: validRefs_def)

lemma consistent_generateFlights:
  assumes "generateFlights s g = Some (s', g')" and "runwaysConsistent s \<and> validRefs s"
  shows "runwaysConsistent s' \<and> validRefs s'"
  by (rule generateFlights_rule[OF assms(1),
        where P = "\<lambda>s g. runwaysConsistent s \<and> validRefs s"])
     (use assms(2) consistent_spawnFlight in auto)

lemma consistent_updateSimulation:
  assumes u: "updateSimulation s g = Some (s', g')"
    and c: "runwaysConsistent s \<and> validRefs s"
  shows "runwaysConsistent s' \<and> validRefs s'"
proof -
  from u obtain s1 g1 where
    gen: "generateFlights (s\<lparr>currentSimulationTime := currentSimulationTime s + 1\<rparr>) g = Some (s1, g1)"
    and s': "s' = moveCompletedFlights (fst (updateFlights (assignRunways s1) g1))"
    by (auto simp: updateSimulation_def split_beta split: option.splits)
  from consistent_generateFlights[OF gen] c have 1: "runwaysConsistent s1 \<and> validRefs s1"
    by simp
  then have 2: "runwaysConsistent (assignRunways s1) \<and> validRefs (assignRunways s1)"
    by (simp add: consistent_assignRunways)
  have 3: "runwaysConsistent (fst (updateFlights (assignRunways s1) g1))
           \<and> validRefs (fst (updateFlights (assignRunways s1) g1))"
    using consistent_untouched[OF runwaysUntouched_updateFlights[of "assignRunways s1" g1]] 2
    by simp
  then show ?thesis
    unfolding s' by (simp add: consistent_moveCompletedFlights)
qed

lemma consistent_init: "runwaysConsistent FlightScheduler_ctor \<and> validRefs FlightScheduler_ctor"
  by (simp add: runwaysConsistent_def validRefs_def occupant_def available_def
      FlightScheduler_ctor_fields split: Runway.split)

lemma reachable_consistent:
  "reachable sg \<Longrightarrow> runwaysConsistent (fst sg) \<and> validRefs (fst sg)"
proof (induction rule: reachable.induct)
  case (init rnd clk)
  show ?case using consistent_init by simp
next
  case (tick s g s' g')
  from consistent_updateSimulation[OF tick.hyps(2)] tick.IH show ?case by simp
next
  case (pay s g avnId amount)
  then show ?case by simp
qed

text \<open>
  Claim C2. At every reachable state of the scheduler no two aircraft are assigned the
  same runway, an aircraft is assigned runway A, B or C exactly when the occupant of that
  runway is this aircraft, an aircraft is the occupant of at most one runway, and a
  runway is available exactly when it has no occupant.
\<close>

theorem runway_mutual_exclusion:
  assumes "reachable (s, g)"
  shows "(\<forall>i j. i < length (allFlights s) \<and> j < length (allFlights s)
              \<and> assignedRunway (allFlights s ! i) \<noteq> NONE
              \<and> assignedRunway (allFlights s ! i) = assignedRunway (allFlights s ! j)
              \<longrightarrow> i = j)
       \<and> (\<forall>i. i < length (allFlights s) \<longrightarrow>
              (assignedRunway (allFlights s ! i) = RWY_A) = (runwayAOccupant s = Some i)
            \<and> (assignedRunway (allFlights s ! i) = RWY_B) = (runwayBOccupant s = Some i)
            \<and> (assignedRunway (allFlights s ! i) = RWY_C) = (runwayCOccupant s = Some i))
       \<and> (\<forall>i. runwayAOccupant s = Some i \<or> runwayBOccupant s = Some i
                \<or> runwayCOccupant s = Some i \<longrightarrow>
              i < length (allFlights s)
              \<and> (runwayAOccupant s = Some i \<longrightarrow> runwayBOccupant s \<noteq> Some i
                                                   \<and> runwayCOccupant s \<noteq> Some i)
              \<and> (runwayBOccupant s = Some i \<longrightarrow> runwayCOccupant s \<noteq> Some i))
       \<and> runwayAAvailable s = (runwayAOccupant s = None)
       \<and> runwayBAvailable s = (runwayBOccupant s = None)
       \<and> runwayCAvailable s = (runwayCOccupant s = None)"
proof -
  from reachable_consistent[OF assms] have c: "runwaysConsistent s" by simp
  then have eq: "\<And>r i. r \<noteq> NONE \<Longrightarrow> i < length (allFlights s) \<Longrightarrow>
          (assignedRunway (allFlights s ! i) = r) = (occupant s r = Some i)"
    and bound: "\<And>r i. occupant s r = Some i \<Longrightarrow> i < length (allFlights s)"
    and av: "\<And>r. r \<noteq> NONE \<Longrightarrow> available s r = (occupant s r = None)"
    by (simp_all add: runwaysConsistent_def)
  have 1: "i = j" if "i < length (allFlights s)" "j < length (allFlights s)"
      "assignedRunway (allFlights s ! i) \<noteq> NONE"
      "assignedRunway (allFlights s ! i) = assignedRunway (allFlights s ! j)" for i j
    using eq[OF that(3) that(1)] eq[OF that(3) that(2)] that(4) by simp
  have 2: "(assignedRunway (allFlights s ! i) = RWY_A) = (runwayAOccupant s = Some i)
            \<and> (assignedRunway (allFlights s ! i) = RWY_B) = (runwayBOccupant s = Some i)
            \<and> (assignedRunway (allFlights s ! i) = RWY_C) = (runwayCOccupant s = Some i)"
    if "i < length (allFlights s)" for i
    using eq[of RWY_A i] eq[of RWY_B i] eq[of RWY_C i] that by (simp add: occupant_def)
  have 3: "i < length (allFlights s)
              \<and> (runwayAOccupant s = Some i \<longrightarrow> runwayBOccupant s \<noteq> Some i
                                                   \<and> runwayCOccupant s \<noteq> Some i)
              \<and> (runwayBOccupant s = Some i \<longrightarrow> runwayCOccupant s \<noteq> Some i)"
    if "runwayAOccupant s = Some i \<or> runwayBOccupant s = Some i \<or> runwayCOccupant s = Some i" for i
  proof -
    from that bound[of RWY_A i] bound[of RWY_B i] bound[of RWY_C i]
    have b: "i < length (allFlights s)" by (auto simp: occupant_def)
    from 2[OF b] show ?thesis using b by auto
  qed
  from av[of RWY_A] av[of RWY_B] av[of RWY_C]
  have 4: "runwayAAvailable s = (runwayAOccupant s = None)"
       "runwayBAvailable s = (runwayBOccupant s = None)"
       "runwayCAvailable s = (runwayCOccupant s = None)"
    by (simp_all add: occupant_def available_def)
  from 1 2 3 4 show ?thesis by blast
qed


theorem runway_mutual_exclusion_witness:
  "\<exists>s g. reachable (s, g) \<and> two_ticks cargo_run_globals = Some (s, g)
     \<and> length (allFlights s) = 2
     \<and> runwayCOccupant s = Some 0 \<and> runwayAOccupant s = Some 1
     \<and> assignedRunway (allFlights s ! 0) = RWY_C \<and> assignedRunway (allFlights s ! 1) = RWY_A
     \<and> \<not> runwayAAvailable s \<and> runwayBAvailable s \<and> \<not> runwayCAvailable s"
proof -
  have ev: "case two_ticks cargo_run_globals of
      Some (s, g) \<Rightarrow> length (allFlights s) = 2 \<and> runwayCOccupant s = Some 0
          \<and> runwayAOccupant s = Some 1 \<and> runwayBOccupant s = None
    | None \<Rightarrow> False"
    by code_simp
  then obtain s g where t: "two_ticks cargo_run_globals = Some (s, g)"
    and l: "length (allFlights s) = 2" "runwayCOccupant s = Some 0"
      "runwayAOccupant s = Some 1" "runwayBOccupant s = None"
    by (auto split: option.splits)
  from t obtain s1 g1 where
    1: "updateSimulation FlightScheduler_ctor cargo_run_globals = Some (s1, g1)"
    and 2: "updateSimulation s1 g1 = Some (s, g)"
    by (auto simp: two_ticks_def split: option.splits)
  have "reachable (FlightScheduler_ctor, cargo_run_globals)"
    unfolding cargo_run_globals_def by (rule reachable.init)
  from reachable.tick[OF reachable.tick[OF this 1] 2] have r: "reachable (s, g)" .
  from runway_mutual_exclusion[OF r] l
  have "assignedRunway (allFlights s ! 0) = RWY_C" "assignedRunway (allFlights s ! 1) = RWY_A"
    "\<not> runwayAAvailable s" "runwayBAvailable s" "\<not> runwayCAvailable s"
    by simp_all
  with r t l show ?thesis by blast
qed

section \<open>Release of runways\<close>

text \<open>The condition under which the release loop of \<^verbatim>\<open>assignRunways\<close> frees a runway.\<close>

definition releaseCondition :: "Aircraft \<Rightarrow> bool" where
  "releaseCondition a =
     (case state a of
        Arrival st \<Rightarrow> st = ArrivalState.TAXI \<or> st = ArrivalState.AT_GATE
      | Departure st \<Rightarrow> st = CLIMB \<or> st = CRUISE)"

definition freeTime :: "FlightScheduler \<Rightarrow> Runway \<Rightarrow> int" where
  "freeTime s r =
     (case r of RWY_A \<Rightarrow> runwayAFreeTime s | RWY_B \<Rightarrow> runwayBFreeTime s
      | RWY_C \<Rightarrow> runwayCFreeTime s | NONE \<Rightarrow> 0)"

text \<open>The scheduler when the three queues have been processed, before the release loop.\<close>

definition processQueues :: "FlightScheduler \<Rightarrow> FlightScheduler" where
  "processQueues s =
     (let (sA, tempAQueue) = processRunwayAQueue s [];
          (sB, tempBQueue) = processRunwayBQueue sA [];
          (sC, tempCQueue) = processRunwayCQueue sB []
      in sC\<lparr>runwayAQueue := tempAQueue, runwayBQueue := tempBQueue,
             runwayCQueue := tempCQueue\<rparr>)"

lemma assignRunways_fold:
  "assignRunways s = fold releaseRunwayOf (activeFlights (processQueues s)) (processQueues s)"
  by (simp add: assignRunways_def processQueues_def Let_def split_beta)

lemma freeTime_eqI:
  "runwayAFreeTime s' = runwayAFreeTime s \<Longrightarrow> runwayBFreeTime s' = runwayBFreeTime s \<Longrightarrow>
   runwayCFreeTime s' = runwayCFreeTime s \<Longrightarrow> freeTime s' = freeTime s"
  by (simp add: freeTime_def fun_eq_iff split: Runway.split)

lemma freeTime_queue [simp]:
  "freeTime (s\<lparr>runwayAQueue := q\<rparr>) = freeTime s"
  "freeTime (s\<lparr>runwayBQueue := q\<rparr>) = freeTime s"
  "freeTime (s\<lparr>runwayCQueue := q\<rparr>) = freeTime s"
  by (simp_all add: freeTime_def fun_eq_iff split: Runway.split)

lemma try_freeTime [simp]:
  "freeTime (fst (tryRunwayA a s)) = freeTime s"
  "freeTime (fst (tryRunwayB a s)) = freeTime s"
  "freeTime (fst (tryRunwayC a s)) = freeTime s"
  by (simp_all add: freeTime_def fun_eq_iff try_simps split: Runway.split)

lemma try_other:
  "i \<noteq> a \<Longrightarrow> allFlights (fst (tryRunwayA a s)) ! i = allFlights s ! i"
  "i \<noteq> a \<Longrightarrow> allFlights (fst (tryRunwayB a s)) ! i = allFlights s ! i"
  "i \<noteq> a \<Longrightarrow> allFlights (fst (tryRunwayC a s)) ! i = allFlights s ! i"
  by (simp_all add: try_simps)

text \<open>What the queue loops keep: a property kept by every pop and by every assignment
  of a runway to an aircraft that has none.\<close>

lemma loops_keep:
  assumes Q: "Q s"
    and queueA: "\<And>s q. Q s \<Longrightarrow> Q (s\<lparr>runwayAQueue := q\<rparr>)"
    and queueB: "\<And>s q. Q s \<Longrightarrow> Q (s\<lparr>runwayBQueue := q\<rparr>)"
    and queueC: "\<And>s q. Q s \<Longrightarrow> Q (s\<lparr>runwayCQueue := q\<rparr>)"
    and tr: "\<And>s a. Q s \<Longrightarrow> assignedRunway (allFlights s ! a) = NONE \<Longrightarrow>
                Q (fst (tryRunwayA a s)) \<and> Q (fst (tryRunwayB a s)) \<and> Q (fst (tryRunwayC a s))"
  shows "Q (fst (processRunwayAQueue s t))"
    and "Q (fst (processRunwayBQueue s t))"
    and "Q (fst (processRunwayCQueue s t))"
proof -
  have att: "Q (fst (attemptA a s')) \<and> Q (fst (attemptB a s')) \<and> Q (fst (attemptC a s'))"
    if "Q s'" "assignedRunway (allFlights s' ! a) = NONE" for s' a
    using attempt_cases[of a s'] tr[OF that] that(1) by auto
  show "Q (fst (processRunwayAQueue s t))"
  proof (rule processRunwayAQueue_rule[where P = "\<lambda>s' t'. Q s'"], goal_cases)
    case 1 show ?case by (rule Q)
  next
    case (2 s1 t1 a) then show ?case by (simp add: queueA)
  next
    case (3 s1 t1 a)
    then show ?case
      using att[of "s1\<lparr>runwayAQueue := pq_pop (allFlights s1) (runwayAQueue s1)\<rparr>" a]
      by (simp add: queueA)
  qed
  show "Q (fst (processRunwayBQueue s t))"
  proof (rule processRunwayBQueue_rule[where P = "\<lambda>s' t'. Q s'"], goal_cases)
    case 1 show ?case by (rule Q)
  next
    case (2 s1 t1 a) then show ?case by (simp add: queueB)
  next
    case (3 s1 t1 a)
    then show ?case
      using att[of "s1\<lparr>runwayBQueue := pq_pop (allFlights s1) (runwayBQueue s1)\<rparr>" a]
      by (simp add: queueB)
  qed
  show "Q (fst (processRunwayCQueue s t))"
  proof (rule processRunwayCQueue_rule[where P = "\<lambda>s' t'. Q s'"], goal_cases)
    case 1 show ?case by (rule Q)
  next
    case (2 s1 t1 a) then show ?case by (simp add: queueC)
  next
    case (3 s1 t1 a)
    then show ?case
      using att[of "s1\<lparr>runwayCQueue := pq_pop (allFlights s1) (runwayCQueue s1)\<rparr>" a]
      by (simp add: queueC)
  qed
qed

lemma processQueues_keep:
  assumes Q: "Q s"
    and queueA: "\<And>s q. Q s \<Longrightarrow> Q (s\<lparr>runwayAQueue := q\<rparr>)"
    and queueB: "\<And>s q. Q s \<Longrightarrow> Q (s\<lparr>runwayBQueue := q\<rparr>)"
    and queueC: "\<And>s q. Q s \<Longrightarrow> Q (s\<lparr>runwayCQueue := q\<rparr>)"
    and tr: "\<And>s a. Q s \<Longrightarrow> assignedRunway (allFlights s ! a) = NONE \<Longrightarrow>
                Q (fst (tryRunwayA a s)) \<and> Q (fst (tryRunwayB a s)) \<and> Q (fst (tryRunwayC a s))"
  shows "Q (processQueues s)"
proof -
  note keep = loops_keep[where Q = Q, OF _ queueA queueB queueC tr]
  let ?sA = "fst (processRunwayAQueue s [])"
  let ?sB = "fst (processRunwayBQueue ?sA [])"
  let ?sC = "fst (processRunwayCQueue ?sB [])"
  have "Q ?sA" by (rule keep(1)[OF Q])
  then have "Q ?sB" by (rule keep(2))
  then have "Q ?sC" by (rule keep(3))
  then show ?thesis
    by (simp add: processQueues_def Let_def split_beta queueA queueB queueC)
qed

text \<open>The queue loops leave an aircraft that has a runway, and the free-since stamps, alone.\<close>

lemma processQueues_assigned:
  assumes "assignedRunway (allFlights s ! i) \<noteq> NONE"
  shows "allFlights (processQueues s) ! i = allFlights s ! i"
    and "freeTime (processQueues s) = freeTime s"
proof -
  have "allFlights (processQueues s) ! i = allFlights s ! i
        \<and> freeTime (processQueues s) = freeTime s"
  proof (rule processQueues_keep[where Q = "\<lambda>s'. allFlights s' ! i = allFlights s ! i
                                            \<and> freeTime s' = freeTime s"], goal_cases)
    case (5 s1 a)
    with assms have "i \<noteq> a" by auto
    with 5 show ?case by (simp add: try_other)
  qed simp_all
  then show "allFlights (processQueues s) ! i = allFlights s ! i"
    and "freeTime (processQueues s) = freeTime s" by simp_all
qed

lemma onlyRunways_processQueues: "onlyRunways s (processQueues s)"
proof (rule processQueues_keep[where Q = "onlyRunways s"], goal_cases)
  case (5 s1 a)
  then show ?case using onlyRunways_try[of s1 a] by (blast intro: onlyRunways_trans)
qed (simp_all add: onlyRunways_refl)

lemma consistent_processQueues:
  assumes c: "runwaysConsistent s" and v: "validRefs s"
  shows "runwaysConsistent (processQueues s)"
proof -
  let ?n = "length (allFlights s)"
  let ?sA = "fst (processRunwayAQueue s [])"
  let ?sB = "fst (processRunwayBQueue ?sA [])"
  let ?sC = "fst (processRunwayCQueue ?sB [])"
  have nA: "length (allFlights ?sA) = ?n" using onlyRunways_length[OF onlyRunways_loops(1)] .
  have nB: "length (allFlights ?sB) = ?n" using onlyRunways_length[OF onlyRunways_loops(2)] nA by simp
  from v have vq: "\<forall>i \<in> set (runwayAQueue s) \<union> set []. i < ?n"
    "\<forall>i \<in> set (runwayBQueue s). i < ?n" "\<forall>i \<in> set (runwayCQueue s). i < ?n"
    by (auto simp: validRefs_def)
  from consistent_loops(1)[OF c vq(1)] have A: "runwaysConsistent ?sA" by simp
  have "\<forall>i \<in> set (runwayBQueue ?sA) \<union> set []. i < length (allFlights ?sA)"
    using vq(2) nA by (simp add: loop_queues)
  from consistent_loops(2)[OF A this] have B: "runwaysConsistent ?sB" by simp
  have "\<forall>i \<in> set (runwayCQueue ?sB) \<union> set []. i < length (allFlights ?sB)"
    using vq(3) nB by (simp add: loop_queues)
  from consistent_loops(3)[OF B this] have "runwaysConsistent ?sC" by simp
  then show ?thesis by (simp add: processQueues_def Let_def split_beta)
qed


lemma consistent_occupant:
  assumes "runwaysConsistent s" and "i < length (allFlights s)" and "r \<noteq> NONE"
  shows "(assignedRunway (allFlights s ! i) = r) = (occupant s r = Some i)"
  using assms unfolding runwaysConsistent_def by blast

lemma release_effect:
  assumes "assignedRunway (allFlights s ! f) = r" and "r \<noteq> NONE"
    and "releaseCondition (allFlights s ! f)"
  shows "allFlights (releaseRunwayOf f s)
           = (allFlights s)[f := (allFlights s ! f)\<lparr>assignedRunway := NONE\<rparr>]"
    and "occupant (releaseRunwayOf f s) = (occupant s)(r := None)"
    and "freeTime (releaseRunwayOf f s) = (freeTime s)(r := currentSimulationTime s)"
  using assms release_views(1,2)[of s f r]
  by (simp_all add: releaseCondition_def)
     (cases r; simp add: releaseRunwayOf_def setAssignedRunway_def Let_def fun_eq_iff
           freeTime_def split: Runway.split)

lemma release_time [simp]:
  "currentSimulationTime (releaseRunwayOf f s) = currentSimulationTime s"
  "activeFlights (releaseRunwayOf f s) = activeFlights s"
  "length (allFlights (releaseRunwayOf f s)) = length (allFlights s)"
  by (simp_all add: releaseRunwayOf_def setAssignedRunway_def Let_def)

lemma fold_release_time [simp]:
  "currentSimulationTime (fold releaseRunwayOf fs s) = currentSimulationTime s"
  "activeFlights (fold releaseRunwayOf fs s) = activeFlights s"
  "length (allFlights (fold releaseRunwayOf fs s)) = length (allFlights s)"
  by (induction fs arbitrary: s) simp_all

text \<open>Releasing the runway of another aircraft leaves an aircraft and its runway alone.\<close>

lemma release_other:
  assumes c: "runwaysConsistent s" and f: "f < length (allFlights s)"
    and i: "i < length (allFlights s)" and ne: "f \<noteq> i"
    and r: "r \<noteq> NONE" and held: "occupant s r \<noteq> Some f"
  shows "allFlights (releaseRunwayOf f s) ! i = allFlights s ! i"
    and "occupant (releaseRunwayOf f s) r = occupant s r"
    and "freeTime (releaseRunwayOf f s) r = freeTime s r"
proof -
  have "allFlights (releaseRunwayOf f s) ! i = allFlights s ! i
        \<and> occupant (releaseRunwayOf f s) r = occupant s r
        \<and> freeTime (releaseRunwayOf f s) r = freeTime s r"
  proof (cases "assignedRunway (allFlights s ! f) = NONE
                \<or> \<not> releaseCondition (allFlights s ! f)")
    case True
    then have "releaseRunwayOf f s = s"
      by (intro release_skip) (simp add: releaseCondition_def)
    then show ?thesis by simp
  next
    case False
    let ?r' = "assignedRunway (allFlights s ! f)"
    from False have r': "?r' \<noteq> NONE" and rel: "releaseCondition (allFlights s ! f)" by simp_all
    from consistent_occupant[OF c f r'] have "occupant s ?r' = Some f" by simp
    with held have "?r' \<noteq> r" by auto
    with release_effect[OF refl r' rel] ne show ?thesis by simp
  qed
  then show "allFlights (releaseRunwayOf f s) ! i = allFlights s ! i"
    and "occupant (releaseRunwayOf f s) r = occupant s r"
    and "freeTime (releaseRunwayOf f s) r = freeTime s r" by simp_all
qed

text \<open>The release loop leaves an aircraft whose state does not release its runway alone.\<close>

lemma fold_release_keeps:
  assumes "runwaysConsistent s" and "\<forall>f \<in> set fs. f < length (allFlights s)"
    and "i < length (allFlights s)"
    and "assignedRunway (allFlights s ! i) = r" and "r \<noteq> NONE"
    and "\<not> releaseCondition (allFlights s ! i)"
  shows "allFlights (fold releaseRunwayOf fs s) ! i = allFlights s ! i
         \<and> freeTime (fold releaseRunwayOf fs s) r = freeTime s r"
  using assms
proof (induction fs arbitrary: s)
  case Nil
  show ?case by simp
next
  case (Cons f fs)
  let ?s = "releaseRunwayOf f s"
  have f: "f < length (allFlights s)" using Cons.prems(2) by simp
  have c': "runwaysConsistent ?s" using Cons.prems(1) f by (rule consistent_releaseRunwayOf)
  have occ: "occupant s r = Some i"
    using consistent_occupant[OF Cons.prems(1,3,5)] Cons.prems(4) by simp
  have step: "allFlights ?s ! i = allFlights s ! i \<and> freeTime ?s r = freeTime s r"
  proof (cases "f = i")
    case True
    with Cons.prems(6) have "?s = s" by (intro release_skip) (simp add: releaseCondition_def)
    then show ?thesis by simp
  next
    case False
    with occ have "occupant s r \<noteq> Some f" by simp
    from release_other[OF Cons.prems(1) f Cons.prems(3) False Cons.prems(5) this]
    show ?thesis by simp
  qed
  from Cons.IH[OF c'] Cons.prems step
  show ?case by simp
qed

text \<open>
  The release loop frees the runway of an active aircraft whose state releases it, and
  stamps the runway with the current tick.
\<close>

lemma fold_release_releases:
  assumes "runwaysConsistent s" and "\<forall>f \<in> set fs. f < length (allFlights s)"
    and "i < length (allFlights s)" and "r \<noteq> NONE"
    and "(assignedRunway (allFlights s ! i) = r \<and> releaseCondition (allFlights s ! i)
            \<and> i \<in> set fs)
         \<or> (assignedRunway (allFlights s ! i) = NONE \<and> occupant s r = None
            \<and> freeTime s r = currentSimulationTime s)"
  shows "assignedRunway (allFlights (fold releaseRunwayOf fs s) ! i) = NONE
         \<and> occupant (fold releaseRunwayOf fs s) r = None
         \<and> freeTime (fold releaseRunwayOf fs s) r = currentSimulationTime s"
  using assms
proof (induction fs arbitrary: s)
  case Nil
  then show ?case by simp
next
  case (Cons f fs)
  let ?s = "releaseRunwayOf f s"
  have f: "f < length (allFlights s)" using Cons.prems(2) by simp
  have c': "runwaysConsistent ?s" using Cons.prems(1) f by (rule consistent_releaseRunwayOf)
  have step: "(assignedRunway (allFlights ?s ! i) = r \<and> releaseCondition (allFlights ?s ! i)
            \<and> i \<in> set fs)
         \<or> (assignedRunway (allFlights ?s ! i) = NONE \<and> occupant ?s r = None
            \<and> freeTime ?s r = currentSimulationTime ?s)"
  proof (cases "f = i")
    case True
    show ?thesis
    proof (cases "assignedRunway (allFlights s ! i) = NONE")
      case True
      with \<open>f = i\<close> have "?s = s" by (intro release_skip) simp
      with True Cons.prems(4,5) show ?thesis by auto
    next
      case False
      with Cons.prems(5) have h: "assignedRunway (allFlights s ! i) = r"
        "releaseCondition (allFlights s ! i)" by auto
      from release_effect[OF h(1) Cons.prems(4) h(2)] Cons.prems(3) \<open>f = i\<close>
      show ?thesis by simp
    qed
  next
    case False
    have "occupant s r \<noteq> Some f"
    proof
      assume o: "occupant s r = Some f"
      from Cons.prems(5) o have "assignedRunway (allFlights s ! i) = r" by auto
      with consistent_occupant[OF Cons.prems(1,3,4)] have "occupant s r = Some i" by simp
      with o False show False by simp
    qed
    from release_other[OF Cons.prems(1) f Cons.prems(3) False Cons.prems(4) this]
      Cons.prems(5) False
    show ?thesis by auto
  qed
  from Cons.IH[OF c' _ _ Cons.prems(4) step] Cons.prems(2,3)
  show ?case by simp
qed


text \<open>What \<^verbatim>\<open>assignRunways\<close> does to an aircraft that has a runway.\<close>

lemma assignRunways_keeps:
  assumes c: "runwaysConsistent s" and v: "validRefs s"
    and i: "i < length (allFlights s)"
    and r: "assignedRunway (allFlights s ! i) = r" "r \<noteq> NONE"
    and n: "\<not> releaseCondition (allFlights s ! i)"
  shows "allFlights (assignRunways s) ! i = allFlights s ! i
         \<and> occupant (assignRunways s) r = Some i \<and> \<not> available (assignRunways s) r
         \<and> freeTime (assignRunways s) r = freeTime s r"
proof -
  let ?p = "processQueues s"
  from r have a: "assignedRunway (allFlights s ! i) \<noteq> NONE" by simp
  note p = processQueues_assigned[OF a]
  have o: "onlyRunways s ?p" by (rule onlyRunways_processQueues)
  then have len: "length (allFlights ?p) = length (allFlights s)"
    and act: "activeFlights ?p = activeFlights s"
    by (simp_all add: onlyRunways_def)
  have cp: "runwaysConsistent ?p" using c v by (rule consistent_processQueues)
  have b: "\<forall>f \<in> set (activeFlights ?p). f < length (allFlights ?p)"
    using v by (simp add: act len validRefs_def)
  from fold_release_keeps[OF cp b, of i r] i r n p
  have k: "allFlights (assignRunways s) ! i = allFlights s ! i"
    "freeTime (assignRunways s) r = freeTime s r"
    by (simp_all add: len assignRunways_fold)
  from consistent_assignRunways[OF c v] have ca: "runwaysConsistent (assignRunways s)" by simp
  have la: "length (allFlights (assignRunways s)) = length (allFlights s)"
    by (simp add: assignRunways_fold len)
  from consistent_occupant[OF ca, of i r] i r k(1) la
  have oc: "occupant (assignRunways s) r = Some i" by simp
  with ca r(2) have "\<not> available (assignRunways s) r" by (simp add: runwaysConsistent_def)
  with k oc show ?thesis by simp
qed

lemma assignRunways_releases:
  assumes c: "runwaysConsistent s" and v: "validRefs s"
    and i: "i \<in> set (activeFlights s)"
    and r: "assignedRunway (allFlights s ! i) = r" "r \<noteq> NONE"
    and n: "releaseCondition (allFlights s ! i)"
  shows "assignedRunway (allFlights (assignRunways s) ! i) = NONE
         \<and> occupant (assignRunways s) r = None \<and> available (assignRunways s) r
         \<and> freeTime (assignRunways s) r = currentSimulationTime s"
proof -
  let ?p = "processQueues s"
  from r have a: "assignedRunway (allFlights s ! i) \<noteq> NONE" by simp
  note p = processQueues_assigned[OF a]
  have o: "onlyRunways s ?p" by (rule onlyRunways_processQueues)
  then have len: "length (allFlights ?p) = length (allFlights s)"
    and act: "activeFlights ?p = activeFlights s"
    and time: "currentSimulationTime ?p = currentSimulationTime s"
    by (simp_all add: onlyRunways_def)
  have cp: "runwaysConsistent ?p" using c v by (rule consistent_processQueues)
  have b: "\<forall>f \<in> set (activeFlights ?p). f < length (allFlights ?p)"
    using v by (simp add: act len validRefs_def)
  from b i have il: "i < length (allFlights ?p)" by (simp add: act)
  from fold_release_releases[OF cp b il r(2)] i r n p
  have k: "assignedRunway (allFlights (assignRunways s) ! i) = NONE"
    "occupant (assignRunways s) r = None"
    "freeTime (assignRunways s) r = currentSimulationTime s"
    by (simp_all add: act time assignRunways_fold)
  from consistent_assignRunways[OF c v] have ca: "runwaysConsistent (assignRunways s)" by simp
  with k(2) r(2) have "available (assignRunways s) r" by (simp add: runwaysConsistent_def)
  with k show ?thesis by simp
qed

text \<open>The flights generated in a tick are new; nothing else changes but the queues.\<close>

definition flightsAdded :: "FlightScheduler \<Rightarrow> FlightScheduler \<Rightarrow> bool" where
  "flightsAdded s s' =
     (length (allFlights s) \<le> length (allFlights s')
      \<and> (\<forall>i < length (allFlights s). allFlights s' ! i = allFlights s ! i)
      \<and> set (activeFlights s) \<subseteq> set (activeFlights s')
      \<and> occupant s' = occupant s \<and> available s' = available s \<and> freeTime s' = freeTime s
      \<and> currentSimulationTime s' = currentSimulationTime s)"

lemma views_last [simp]:
  "occupant (s\<lparr>lastNorthArrival := t\<rparr>) = occupant s"
  "occupant (s\<lparr>lastSouthArrival := t\<rparr>) = occupant s"
  "occupant (s\<lparr>lastEastDeparture := t\<rparr>) = occupant s"
  "occupant (s\<lparr>lastWestDeparture := t\<rparr>) = occupant s"
  "occupant (s\<lparr>currentSimulationTime := t\<rparr>) = occupant s"
  "available (s\<lparr>lastNorthArrival := t\<rparr>) = available s"
  "available (s\<lparr>lastSouthArrival := t\<rparr>) = available s"
  "available (s\<lparr>lastEastDeparture := t\<rparr>) = available s"
  "available (s\<lparr>lastWestDeparture := t\<rparr>) = available s"
  "available (s\<lparr>currentSimulationTime := t\<rparr>) = available s"
  "freeTime (s\<lparr>lastNorthArrival := t\<rparr>) = freeTime s"
  "freeTime (s\<lparr>lastSouthArrival := t\<rparr>) = freeTime s"
  "freeTime (s\<lparr>lastEastDeparture := t\<rparr>) = freeTime s"
  "freeTime (s\<lparr>lastWestDeparture := t\<rparr>) = freeTime s"
  "freeTime (s\<lparr>currentSimulationTime := t\<rparr>) = freeTime s"
  by (simp_all add: occupant_def available_def freeTime_def fun_eq_iff split: Runway.split)

lemma flightsAdded_spawnFlight:
  assumes "spawnFlight prob sp base arr d s g = Some (s', g')"
  shows "flightsAdded s s'"
proof -
  from spawnFlight_Some[OF assms] obtain f where
    s': "s' = (if arr
                   then s\<lparr>allFlights := allFlights s @ [f],
                          activeFlights := activeFlights s @ [length (allFlights s)],
                          runwayAQueue := runwayAQueue s @ [length (allFlights s)]\<rparr>
                   else s\<lparr>allFlights := allFlights s @ [f],
                          activeFlights := activeFlights s @ [length (allFlights s)],
                          runwayBQueue := runwayBQueue s @ [length (allFlights s)]\<rparr>)"
    by blast
  have "occupant s' = occupant s" by (intro occupant_eqI) (simp_all add: s')
  moreover have "available s' = available s" by (intro available_eqI) (simp_all add: s')
  moreover have "freeTime s' = freeTime s" by (intro freeTime_eqI) (simp_all add: s')
  ultimately show ?thesis
    by (auto simp: flightsAdded_def s' nth_append)
qed

lemma flightsAdded_trans: "flightsAdded s s' \<Longrightarrow> flightsAdded s' s'' \<Longrightarrow> flightsAdded s s''"
  by (auto simp: flightsAdded_def)

lemma flightsAdded_generateFlights:
  assumes "generateFlights s g = Some (s', g')"
  shows "flightsAdded s s'"
proof (rule generateFlights_rule[OF assms, where P = "\<lambda>s' g'. flightsAdded s s'"], goal_cases)
  case 1
  show ?case by (simp add: flightsAdded_def)
next
  case (6 prob sp base arr d s1 g1 s2 g2)
  from flightsAdded_trans[OF 6(1) flightsAdded_spawnFlight[OF 6(2)]] show ?case .
qed (simp_all add: flightsAdded_def)

lemma updateSimulation_steps:
  assumes "updateSimulation s g = Some (s', g')"
  obtains s1 g1 where
    "generateFlights (s\<lparr>currentSimulationTime := currentSimulationTime s + 1\<rparr>) g = Some (s1, g1)"
    and "s' = moveCompletedFlights (fst (updateFlights (assignRunways s1) g1))"
  using assms by (auto simp: updateSimulation_def split_beta split: option.splits)

lemma moveCompletedFlights_views [simp]:
  "allFlights (moveCompletedFlights s) = allFlights s"
  "occupant (moveCompletedFlights s) = occupant s"
  "available (moveCompletedFlights s) = available s"
  "freeTime (moveCompletedFlights s) = freeTime s"
  "currentSimulationTime (moveCompletedFlights s) = currentSimulationTime s"
  by (simp_all add: moveCompletedFlights_def occupant_def available_def freeTime_def fun_eq_iff
      split: Runway.split)

lemma untouched_freeTime:
  assumes "runwaysUntouched s s'"
  shows "freeTime s' = freeTime s" and "currentSimulationTime s' = currentSimulationTime s"
    and "activeFlights s' = activeFlights s"
  using assms by (simp_all add: runwaysUntouched_def freeTime_def fun_eq_iff split: Runway.split)


text \<open>One tick, for an aircraft that has a runway at the start of the tick.\<close>

lemma tick_keeps:
  assumes c: "runwaysConsistent s" and v: "validRefs s"
    and u: "updateSimulation s g = Some (s', g')"
    and i: "i \<in> set (activeFlights s)"
    and r: "assignedRunway (allFlights s ! i) = r" "r \<noteq> NONE"
    and n: "\<not> releaseCondition (allFlights s ! i)"
  shows "assignedRunway (allFlights s' ! i) = r \<and> occupant s' r = Some i
         \<and> \<not> available s' r \<and> freeTime s' r = freeTime s r
         \<and> (\<not> isCompleted (allFlights s' ! i) \<longrightarrow> i \<in> set (activeFlights s'))"
proof -
  let ?s0 = "s\<lparr>currentSimulationTime := currentSimulationTime s + 1\<rparr>"
  from u obtain s1 g1 where gen: "generateFlights ?s0 g = Some (s1, g1)"
    and s': "s' = moveCompletedFlights (fst (updateFlights (assignRunways s1) g1))"
    by (rule updateSimulation_steps)
  let ?a = "assignRunways s1" and ?u = "fst (updateFlights (assignRunways s1) g1)"
  from v i have il: "i < length (allFlights s)" by (simp add: validRefs_def)
  from consistent_generateFlights[OF gen] c v
  have c1: "runwaysConsistent s1" and v1: "validRefs s1" by simp_all
  from flightsAdded_generateFlights[OF gen] il i
  have f1: "allFlights s1 ! i = allFlights s ! i" "i < length (allFlights s1)"
    "freeTime s1 = freeTime s" "i \<in> set (activeFlights s1)"
    by (auto simp: flightsAdded_def)
  from assignRunways_keeps[OF c1 v1 f1(2), of r] r n f1(1,3)
  have a: "allFlights ?a ! i = allFlights s ! i" "occupant ?a r = Some i" "\<not> available ?a r"
    "freeTime ?a r = freeTime s r"
    by simp_all
  have la: "length (allFlights ?a) = length (allFlights s1)"
    and aa: "activeFlights ?a = activeFlights s1"
    using onlyRunways_assignRunways[of s1] by (simp_all add: onlyRunways_def)
  have un: "runwaysUntouched ?a ?u" by (rule runwaysUntouched_updateFlights)
  note uv = untouched_views[OF un] untouched_freeTime[OF un]
  from uv(3)[of i] f1(2) la a(1) r
  have "assignedRunway (allFlights ?u ! i) = r" by simp
  moreover have "i \<in> set (activeFlights s')" if "\<not> isCompleted (allFlights s' ! i)"
    using that f1(4) unfolding s' by (simp add: moveCompletedFlights_def uv(7) aa)
  ultimately show ?thesis
    using a by (simp add: s' uv)
qed

lemma tick_releases:
  assumes c: "runwaysConsistent s" and v: "validRefs s"
    and u: "updateSimulation s g = Some (s', g')"
    and i: "i \<in> set (activeFlights s)"
    and r: "assignedRunway (allFlights s ! i) = r" "r \<noteq> NONE"
    and n: "releaseCondition (allFlights s ! i)"
  shows "assignedRunway (allFlights s' ! i) = NONE \<and> occupant s' r = None
         \<and> available s' r \<and> freeTime s' r = currentSimulationTime s + 1
         \<and> currentSimulationTime s' = currentSimulationTime s + 1"
proof -
  let ?s0 = "s\<lparr>currentSimulationTime := currentSimulationTime s + 1\<rparr>"
  from u obtain s1 g1 where gen: "generateFlights ?s0 g = Some (s1, g1)"
    and s': "s' = moveCompletedFlights (fst (updateFlights (assignRunways s1) g1))"
    by (rule updateSimulation_steps)
  let ?a = "assignRunways s1" and ?u = "fst (updateFlights (assignRunways s1) g1)"
  from v i have il: "i < length (allFlights s)" by (simp add: validRefs_def)
  from consistent_generateFlights[OF gen] c v
  have c1: "runwaysConsistent s1" and v1: "validRefs s1" by simp_all
  from flightsAdded_generateFlights[OF gen] il i
  have f1: "allFlights s1 ! i = allFlights s ! i" "i < length (allFlights s1)"
    "i \<in> set (activeFlights s1)" "currentSimulationTime s1 = currentSimulationTime s + 1"
    by (auto simp: flightsAdded_def)
  from assignRunways_releases[OF c1 v1 f1(3), of r] r n f1(1,4)
  have a: "assignedRunway (allFlights ?a ! i) = NONE" "occupant ?a r = None" "available ?a r"
    "freeTime ?a r = currentSimulationTime s + 1"
    by simp_all
  have la: "length (allFlights ?a) = length (allFlights s1)"
    and ta: "currentSimulationTime ?a = currentSimulationTime s1"
    using onlyRunways_assignRunways[of s1] by (simp_all add: onlyRunways_def)
  have un: "runwaysUntouched ?a ?u" by (rule runwaysUntouched_updateFlights)
  note uv = untouched_views[OF un] untouched_freeTime[OF un]
  from uv(3)[of i] f1(2) la a(1)
  have "assignedRunway (allFlights ?u ! i) = NONE" by simp
  then show ?thesis
    using a by (simp add: s' uv ta f1(4))
qed


text \<open>The simulation loop of \<^verbatim>\<open>main\<close>, for \<open>n\<close> iterations.\<close>

fun simulate :: "nat \<Rightarrow> FlightScheduler \<times> Globals \<Rightarrow> (FlightScheduler \<times> Globals) option" where
  "simulate 0 sg = Some sg"
| "simulate (Suc n) sg =
     (case updateSimulation (fst sg) (snd sg) of None \<Rightarrow> None | Some sg' \<Rightarrow> simulate n sg')"

lemma simulate_reachable: "reachable sg \<Longrightarrow> simulate n sg = Some sg' \<Longrightarrow> reachable sg'"
proof (induction n arbitrary: sg)
  case 0
  then show ?case by simp
next
  case (Suc n)
  from Suc.prems(2) obtain s1 g1 where
    1: "updateSimulation (fst sg) (snd sg) = Some (s1, g1)" and 2: "simulate n (s1, g1) = Some sg'"
    by (auto split: option.splits)
  from Suc.prems(1) have "reachable (fst sg, snd sg)" by simp
  from Suc.IH[OF reachable.tick[OF this 1] 2] show ?case .
qed

definition release_run_globals :: Globals where
  "release_run_globals = initial_globals (\<lambda>n. 50) (\<lambda>n. 0)"

text \<open>
  Claim C5 says that runway B becomes available, with free-since stamp \<open>T\<close>, within the
  tick \<open>T\<close> in which the departure holding it enters Climb. A run of 28 ticks: the
  departure generated at tick 3 holds runway B in Takeoff Roll after tick 27 and enters
  Climb in tick 28; after tick 28 runway B is still not available, the aircraft still
  holds it, and the free-since stamp is still 0.
\<close>

theorem release_same_tick_counterexample:
  "(case simulate 27 (FlightScheduler_ctor, release_run_globals) of
      Some (s, g) \<Rightarrow>
        state (allFlights s ! 2) = Departure TAKEOFF_ROLL
        \<and> assignedRunway (allFlights s ! 2) = RWY_B
        \<and> (case updateSimulation s g of
              Some (s', g') \<Rightarrow>
                currentSimulationTime s' = 28 \<and> state (allFlights s' ! 2) = Departure CLIMB
                \<and> assignedRunway (allFlights s' ! 2) = RWY_B
                \<and> \<not> runwayBAvailable s' \<and> runwayBFreeTime s' = 0
            | None \<Rightarrow> False)
    | None \<Rightarrow> False)"
  by code_simp

text \<open>
  Claim C5, amended. The release loop runs in \<^verbatim>\<open>assignRunways\<close>, before the flights are
  updated. An active aircraft that holds a runway at the start of tick \<open>T\<close> in a state
  that does not release it, and enters Climb (a departure) or Taxi (an arrival) in
  tick \<open>T\<close>, still holds the runway when tick \<open>T\<close> ends: the runway is not available
  and its free-since stamp is unchanged. The runway is released in tick \<open>T + 1\<close>: when
  that tick ends the aircraft has no runway, the runway has no occupant and is
  available, and its free-since stamp is \<open>T + 1\<close>.
\<close>

theorem release_in_next_tick:
  assumes "reachable (s, g)"
    and "updateSimulation s g = Some (s', g')"
    and "updateSimulation s' g' = Some (s'', g'')"
    and "i \<in> set (activeFlights s)"
    and "assignedRunway (allFlights s ! i) = r" and "r \<noteq> NONE"
    and "\<not> releaseCondition (allFlights s ! i)"
    and "state (allFlights s' ! i) = Departure CLIMB
         \<or> state (allFlights s' ! i) = Arrival ArrivalState.TAXI"
  shows "(assignedRunway (allFlights s' ! i) = r \<and> occupant s' r = Some i
          \<and> \<not> available s' r \<and> freeTime s' r = freeTime s r)
       \<and> (assignedRunway (allFlights s'' ! i) = NONE \<and> occupant s'' r = None
          \<and> available s'' r \<and> freeTime s'' r = currentSimulationTime s' + 1
          \<and> currentSimulationTime s'' = currentSimulationTime s' + 1)"
proof -
  from reachable_consistent[OF assms(1)]
  have c: "runwaysConsistent s" and v: "validRefs s" by simp_all
  from consistent_updateSimulation[OF assms(2)] c v
  have c': "runwaysConsistent s'" and v': "validRefs s'" by simp_all
  from assms(8) have rel: "releaseCondition (allFlights s' ! i)"
    and nc: "\<not> isCompleted (allFlights s' ! i)"
    by (auto simp: releaseCondition_def)
  from tick_keeps[OF c v assms(2,4,5,6,7)] nc
  have k: "assignedRunway (allFlights s' ! i) = r" "occupant s' r = Some i"
    "\<not> available s' r" "freeTime s' r = freeTime s r" "i \<in> set (activeFlights s')"
    by simp_all
  from tick_releases[OF c' v' assms(3) k(5) k(1) assms(6) rel] k
  show ?thesis by simp
qed

theorem release_in_next_tick_witness:
  "\<exists>s g s' g' s'' g''.
      simulate 27 (FlightScheduler_ctor, release_run_globals) = Some (s, g)
      \<and> updateSimulation s g = Some (s', g') \<and> updateSimulation s' g' = Some (s'', g'')
      \<and> state (allFlights s ! 2) = Departure TAKEOFF_ROLL
      \<and> state (allFlights s' ! 2) = Departure CLIMB
      \<and> currentSimulationTime s' = 28
      \<and> runwayBOccupant s' = Some 2 \<and> \<not> runwayBAvailable s' \<and> runwayBFreeTime s' = 0
      \<and> assignedRunway (allFlights s'' ! 2) = NONE
      \<and> runwayBOccupant s'' = None \<and> runwayBAvailable s'' \<and> runwayBFreeTime s'' = 29"
proof -
  have ev: "case simulate 27 (FlightScheduler_ctor, release_run_globals) of
      Some (s, g) \<Rightarrow>
        state (allFlights s ! 2) = Departure TAKEOFF_ROLL
        \<and> assignedRunway (allFlights s ! 2) = RWY_B \<and> 2 \<in> set (activeFlights s)
        \<and> runwayBFreeTime s = 0
        \<and> (case updateSimulation s g of
              Some (s', g') \<Rightarrow>
                currentSimulationTime s' = 28 \<and> state (allFlights s' ! 2) = Departure CLIMB
                \<and> (case updateSimulation s' g' of Some (s'', g'') \<Rightarrow> True | None \<Rightarrow> False)
            | None \<Rightarrow> False)
    | None \<Rightarrow> False"
    by code_simp
  then obtain s g where run1: "simulate 27 (FlightScheduler_ctor, release_run_globals) = Some (s, g)"
    and f1: "state (allFlights s ! 2) = Departure TAKEOFF_ROLL"
      "assignedRunway (allFlights s ! 2) = RWY_B" "2 \<in> set (activeFlights s)"
      "runwayBFreeTime s = 0"
    and ev2: "case updateSimulation s g of
              Some (s', g') \<Rightarrow>
                currentSimulationTime s' = 28 \<and> state (allFlights s' ! 2) = Departure CLIMB
                \<and> (case updateSimulation s' g' of Some (s'', g'') \<Rightarrow> True | None \<Rightarrow> False)
            | None \<Rightarrow> False"
    by (cases "simulate 27 (FlightScheduler_ctor, release_run_globals)") auto
  from ev2 obtain s' g' where run2: "updateSimulation s g = Some (s', g')"
    and f2: "currentSimulationTime s' = 28" "state (allFlights s' ! 2) = Departure CLIMB"
    and ev3: "case updateSimulation s' g' of Some (s'', g'') \<Rightarrow> True | None \<Rightarrow> False"
    by (cases "updateSimulation s g") auto
  from ev3 obtain s'' g'' where run3: "updateSimulation s' g' = Some (s'', g'')"
    by (cases "updateSimulation s' g'") auto
  note run = run1 run2 run3 and f = f1 f2
  have "reachable (FlightScheduler_ctor, release_run_globals)"
    unfolding release_run_globals_def by (rule reachable.init)
  from simulate_reachable[OF this run(1)] have r: "reachable (s, g)" .
  from release_in_next_tick[OF r run(2,3) f(3) f(2)] f
  have "runwayBOccupant s' = Some 2 \<and> \<not> runwayBAvailable s' \<and> runwayBFreeTime s' = 0
      \<and> assignedRunway (allFlights s'' ! 2) = NONE
      \<and> runwayBOccupant s'' = None \<and> runwayBAvailable s'' \<and> runwayBFreeTime s'' = 29"
    by (simp add: releaseCondition_def occupant_def available_def freeTime_def)
  with run f show ?thesis by blast
qed

section \<open>Identifiers of the notices\<close>

lemma map_update_keys [simp]: "map fst (map_update k f m) = map fst m"
  by (induction k f m rule: map_update.induct) simp_all

lemma map_of_key: "k \<in> fst ` set m \<Longrightarrow> \<exists>v. map_of m k = Some v"
  by (cases "map_of m k") (simp_all add: map_of_eq_None_iff)

text \<open>What the body of the loop of \<^verbatim>\<open>updateFlights\<close> does for an aircraft that enters it
  with no notice pending and whose airline is registered.\<close>

lemma updateFlight_cases:
  assumes nv: "currentViolation (allFlights s ! f) = None"
    and al: "airline (allFlights s ! f) \<in> fst ` set (airlines s)"
  obtains (quiet) a' g' where
      "updateFlight f (s, g) = (s\<lparr>allFlights := (allFlights s)[f := a']\<rparr>, g')"
      "updateStatus (allFlights s ! f) g = (a', g')"
      "avnState g' = avnState g" "currentViolation a' = None"
      "identity a' = identity (allFlights s ! f)"
  | (notice) a' g' g1 v where
      "updateFlight f (s, g) =
         (s\<lparr>allFlights := (allFlights s)[f := a'\<lparr>hasActiveViolation := False,
                                                   currentViolation := None\<rparr>],
            airlines := map_update (airline (allFlights s ! f))
                          (addViolation (length (avnHeap g))) (airlines s),
            allAVNs := allAVNs s @ [length (avnHeap g)]\<rparr>, g')"
      "updateStatus (allFlights s ! f) g = (a', g1)"
      "avnHeap g1 = avnHeap g @ [v]"
      "avnHeap g' = avnHeap g @ [v]"
      "identity a' = identity (allFlights s ! f)"
      "aircraftType v = type (allFlights s ! f)"
      "if isArrival (allFlights s ! f)
       then id_avn v = ArrivalFlight_avnIdCounter g
            \<and> ArrivalFlight_avnIdCounter g' = ArrivalFlight_avnIdCounter g + 1
            \<and> DepartureFlight_avnIdCounter g' = DepartureFlight_avnIdCounter g
       else id_avn v = DepartureFlight_avnIdCounter g
            \<and> DepartureFlight_avnIdCounter g' = DepartureFlight_avnIdCounter g + 1
            \<and> ArrivalFlight_avnIdCounter g' = ArrivalFlight_avnIdCounter g"
proof -
  let ?a = "allFlights s ! f"
  obtain a' g1 where u: "updateStatus ?a g = (a', g1)" by (cases "updateStatus ?a g")
  from u show thesis
  proof (cases rule: updateStatus_cases)
    case quiet
    from quiet(2) nv have c: "currentViolation a' = None" by (simp add: violationState_def)
    have "updateFlight f (s, g) = (s\<lparr>allFlights := (allFlights s)[f := a']\<rparr>, g1)"
      by (simp add: updateFlight_def u c)
    from that(1)[OF this u quiet(1) c quiet(3)] show ?thesis .
  next
    case (notice v)
    from notice(3) have c: "currentViolation a' = Some (length (avnHeap g))"
      "hasActiveViolation a'" by (simp_all add: violationState_def)
    from notice(5) have air: "airline a' = airline ?a" by (simp add: identity_def)
    from map_of_key[OF al] obtain x where x: "map_of (airlines s) (airline ?a) = Some x" ..
    let ?g = "snd (updateFlight f (s, g))"
    have uf: "updateFlight f (s, g) =
         (s\<lparr>allFlights := (allFlights s)[f := a'\<lparr>hasActiveViolation := False,
                                                   currentViolation := None\<rparr>],
            airlines := map_update (airline ?a) (addViolation (length (avnHeap g))) (airlines s),
            allAVNs := allAVNs s @ [length (avnHeap g)]\<rparr>, ?g)"
      and g: "avnHeap ?g = avnHeap g1"
        "ArrivalFlight_avnIdCounter ?g = ArrivalFlight_avnIdCounter g1"
        "DepartureFlight_avnIdCounter ?g = DepartureFlight_avnIdCounter g1"
      by (simp_all add: updateFlight_def u c air x Let_def)
    show ?thesis
      by (rule that(2)[OF uf u notice(1) _ notice(5) notice(9)])
         (use notice g in \<open>simp_all split: if_splits\<close>)
  qed
qed


text \<open>
  The ledger \<^verbatim>\<open>allAVNs\<close> holds every notice ever created, once; the identifiers of the
  notices are those handed out by the counter of \<^verbatim>\<open>ArrivalFlight::checkViolation\<close>
  together with those handed out by the counter of \<^verbatim>\<open>DepartureFlight::checkViolation\<close>;
  between two ticks no aircraft has a notice pending, and the airline of every aircraft
  is registered. The counters are C++ \<^verbatim>\<open>int\<close>s, here unbounded integers.
\<close>

definition ledgerConsistent :: "FlightScheduler \<Rightarrow> Globals \<Rightarrow> bool" where
  "ledgerConsistent s g =
     (allAVNs s = [0..<length (avnHeap g)]
      \<and> 1000 \<le> ArrivalFlight_avnIdCounter g \<and> 1000 \<le> DepartureFlight_avnIdCounter g
      \<and> mset (map id_avn (avnHeap g))
          = mset [1000..ArrivalFlight_avnIdCounter g - 1]
            + mset [1000..DepartureFlight_avnIdCounter g - 1]
      \<and> (\<forall>i < length (allFlights s).
            currentViolation (allFlights s ! i) = None
            \<and> airline (allFlights s ! i) \<in> fst ` set (airlines s)))"

lemma ledgerConsistent_init: "ledgerConsistent FlightScheduler_ctor (initial_globals rnd clk)"
  by (simp add: ledgerConsistent_def FlightScheduler_ctor_fields initial_globals_def)

lemma ledgerConsistent_cong:
  "allAVNs s' = allAVNs s \<Longrightarrow> avnState g' = avnState g \<Longrightarrow> airlines s' = airlines s \<Longrightarrow>
   length (allFlights s') = length (allFlights s) \<Longrightarrow>
   (\<And>i. i < length (allFlights s) \<Longrightarrow>
      currentViolation (allFlights s' ! i) = currentViolation (allFlights s ! i)
      \<and> airline (allFlights s' ! i) = airline (allFlights s ! i)) \<Longrightarrow>
   ledgerConsistent s g \<Longrightarrow> ledgerConsistent s' g'"
  by (simp add: ledgerConsistent_def avnState_def)

lemma ledgerConsistent_last [simp]:
  "ledgerConsistent (s\<lparr>lastNorthArrival := t\<rparr>) g = ledgerConsistent s g"
  "ledgerConsistent (s\<lparr>lastSouthArrival := t\<rparr>) g = ledgerConsistent s g"
  "ledgerConsistent (s\<lparr>lastEastDeparture := t\<rparr>) g = ledgerConsistent s g"
  "ledgerConsistent (s\<lparr>lastWestDeparture := t\<rparr>) g = ledgerConsistent s g"
  "ledgerConsistent (s\<lparr>currentSimulationTime := t\<rparr>) g = ledgerConsistent s g"
  by (simp_all add: ledgerConsistent_def)

lemma airlineNames_registered: "al \<in> set (airlineNames s) \<Longrightarrow> al \<in> fst ` set (airlines s)"
  by (auto simp: airlineNames_def)

lemma ledgerConsistent_spawnFlight:
  assumes sp: "spawnFlight prob sp base arr d s g = Some (s', g')"
    and l: "ledgerConsistent s g"
  shows "ledgerConsistent s' g'"
proof -
  from spawnFlight_Some[OF sp] obtain f e al where
    f: "fresh al (flightTypeOf e al sp) d (priorityOf e (flightTypeOf e al sp)) (f\<lparr>isEmergency := False\<rparr>)"
    and al: "al \<in> set (airlineNames s)"
    and s': "s' = (if arr
                   then s\<lparr>allFlights := allFlights s @ [f],
                          activeFlights := activeFlights s @ [length (allFlights s)],
                          runwayAQueue := runwayAQueue s @ [length (allFlights s)]\<rparr>
                   else s\<lparr>allFlights := allFlights s @ [f],
                          activeFlights := activeFlights s @ [length (allFlights s)],
                          runwayBQueue := runwayBQueue s @ [length (allFlights s)]\<rparr>)"
    and g: "avnHeap g' = avnHeap g"
      "ArrivalFlight_avnIdCounter g' = ArrivalFlight_avnIdCounter g"
      "DepartureFlight_avnIdCounter g' = DepartureFlight_avnIdCounter g"
    by blast
  from f have ff: "currentViolation f = None" "airline f = al" by (simp_all add: fresh_def)
  have fs: "allFlights s' = allFlights s @ [f]" "allAVNs s' = allAVNs s" "airlines s' = airlines s"
    by (simp_all add: s')
  have "currentViolation (allFlights s' ! i) = None
        \<and> airline (allFlights s' ! i) \<in> fst ` set (airlines s')"
    if "i < length (allFlights s')" for i
  proof (cases "i < length (allFlights s)")
    case True
    with l show ?thesis by (simp add: fs nth_append ledgerConsistent_def)
  next
    case False
    with that have "i = length (allFlights s)" by (simp add: fs)
    with ff airlineNames_registered[OF al] show ?thesis by (simp add: fs)
  qed
  with l show ?thesis
    by (simp add: ledgerConsistent_def g fs(2))
qed

lemma ledgerConsistent_generateFlights:
  assumes "generateFlights s g = Some (s', g')" and "ledgerConsistent s g"
  shows "ledgerConsistent s' g'"
  by (rule generateFlights_rule[OF assms(1), where P = ledgerConsistent])
     (use assms(2) ledgerConsistent_spawnFlight in auto)

lemma ledgerConsistent_onlyRunways:
  assumes "onlyRunways s s'" and "ledgerConsistent s g"
  shows "ledgerConsistent s' g"
proof (rule ledgerConsistent_cong[OF _ refl _ _ _ assms(2)])
  fix i assume "i < length (allFlights s)"
  with assms(1) have "allFlights s' ! i
      = (allFlights s ! i)\<lparr>assignedRunway := assignedRunway (allFlights s' ! i)\<rparr>"
    by (simp add: onlyRunways_def)
  then have "currentViolation (allFlights s' ! i) = currentViolation ((allFlights s ! i)\<lparr>assignedRunway := assignedRunway (allFlights s' ! i)\<rparr>)"
    "airline (allFlights s' ! i) = airline ((allFlights s ! i)\<lparr>assignedRunway := assignedRunway (allFlights s' ! i)\<rparr>)"
    by simp_all
  then show "currentViolation (allFlights s' ! i) = currentViolation (allFlights s ! i)
      \<and> airline (allFlights s' ! i) = airline (allFlights s ! i)" by simp
qed (use assms(1) in \<open>simp_all add: onlyRunways_def\<close>)

lemma ledgerConsistent_moveCompletedFlights:
  "ledgerConsistent s g \<Longrightarrow> ledgerConsistent (moveCompletedFlights s) g"
  by (simp add: ledgerConsistent_def moveCompletedFlights_def)

lemma upto_snoc_mset: "(1000::int) \<le> c \<Longrightarrow> mset [1000..c + 1 - 1] = mset [1000..c - 1] + {#c#}"
  by (simp add: upto_rec2)

lemma ledgerConsistent_updateFlight:
  assumes l: "ledgerConsistent s g" and f: "f < length (allFlights s)"
  shows "ledgerConsistent (fst (updateFlight f (s, g))) (snd (updateFlight f (s, g)))"
proof -
  let ?a = "allFlights s ! f"
  from l f have nv: "currentViolation ?a = None" and al: "airline ?a \<in> fst ` set (airlines s)"
    by (simp_all add: ledgerConsistent_def)
  from l have rest: "\<And>i. i < length (allFlights s) \<Longrightarrow>
      currentViolation (allFlights s ! i) = None
      \<and> airline (allFlights s ! i) \<in> fst ` set (airlines s)"
    by (simp add: ledgerConsistent_def)
  show ?thesis
  proof (rule updateFlight_cases[OF nv al, where g = g], goal_cases)
    case quiet: (1 a' g')
    from quiet(5) have air: "airline a' = airline ?a" by (simp add: identity_def)
    have "currentViolation ((allFlights s)[f := a'] ! i) = None
          \<and> airline ((allFlights s)[f := a'] ! i) \<in> fst ` set (airlines s)"
      if "i < length (allFlights s)" for i
      using that rest[OF that] quiet(4) air al by (cases "i = f") simp_all
    with l quiet(3) show ?thesis
      by (simp add: quiet(1) ledgerConsistent_def avnState_def)
  next
    case notice: (2 a' g' g1 v)
    from notice(5) have air: "airline a' = airline ?a" by (simp add: identity_def)
    let ?fs = "(allFlights s)[f := a'\<lparr>hasActiveViolation := False, currentViolation := None\<rparr>]"
    have keys: "fst ` set (map_update (airline ?a) (addViolation (length (avnHeap g))) (airlines s))
                = fst ` set (airlines s)"
      using map_update_keys[of "airline ?a" "addViolation (length (avnHeap g))" "airlines s"]
      by (metis set_map)
    have fl: "currentViolation (?fs ! i) = None \<and> airline (?fs ! i) \<in> fst ` set (airlines s)"
      if "i < length (allFlights s)" for i
      using that rest[OF that] air al by (cases "i = f") simp_all
    from l have c: "1000 \<le> ArrivalFlight_avnIdCounter g" "1000 \<le> DepartureFlight_avnIdCounter g"
      and ids: "mset (map id_avn (avnHeap g))
          = mset [1000..ArrivalFlight_avnIdCounter g - 1]
            + mset [1000..DepartureFlight_avnIdCounter g - 1]"
      and led: "allAVNs s = [0..<length (avnHeap g)]"
      by (simp_all add: ledgerConsistent_def)
    have "1000 \<le> ArrivalFlight_avnIdCounter g' \<and> 1000 \<le> DepartureFlight_avnIdCounter g'
      \<and> mset (map id_avn (avnHeap g'))
          = mset [1000..ArrivalFlight_avnIdCounter g' - 1]
            + mset [1000..DepartureFlight_avnIdCounter g' - 1]"
    proof (cases "isArrival ?a")
      case True
      with notice(7) have "id_avn v = ArrivalFlight_avnIdCounter g"
        "ArrivalFlight_avnIdCounter g' = ArrivalFlight_avnIdCounter g + 1"
        "DepartureFlight_avnIdCounter g' = DepartureFlight_avnIdCounter g" by simp_all
      with c ids upto_snoc_mset[OF c(1)] show ?thesis by (simp add: notice(4))
    next
      case False
      with notice(7) have "id_avn v = DepartureFlight_avnIdCounter g"
        "DepartureFlight_avnIdCounter g' = DepartureFlight_avnIdCounter g + 1"
        "ArrivalFlight_avnIdCounter g' = ArrivalFlight_avnIdCounter g" by simp_all
      with c ids upto_snoc_mset[OF c(2)] show ?thesis by (simp add: notice(4))
    qed
    with fl led show ?thesis
      by (simp add: notice(1,4) ledgerConsistent_def keys)
  qed
qed


lemma ledgerConsistent_fold_updateFlight:
  assumes "ledgerConsistent s g" and "\<forall>f \<in> set fs. f < length (allFlights s)"
  shows "ledgerConsistent (fst (fold updateFlight fs (s, g))) (snd (fold updateFlight fs (s, g)))"
  using assms
proof (induction fs arbitrary: s g)
  case Nil
  then show ?case by simp
next
  case (Cons f fs)
  obtain s1 g1 where u: "updateFlight f (s, g) = (s1, g1)" by (cases "updateFlight f (s, g)") auto
  from ledgerConsistent_updateFlight[OF Cons.prems(1), of f] Cons.prems(2) u
  have l: "ledgerConsistent s1 g1" by simp
  from runwaysUntouched_updateFlight[of s f g] u
  have "length (allFlights s1) = length (allFlights s)" by (simp add: runwaysUntouched_def)
  with Cons.prems(2) have "\<forall>f \<in> set fs. f < length (allFlights s1)" by simp
  from Cons.IH[OF l this] u show ?case by simp
qed

lemma ledgerConsistent_updateSimulation:
  assumes u: "updateSimulation s g = Some (s', g')"
    and c: "runwaysConsistent s \<and> validRefs s" and l: "ledgerConsistent s g"
  shows "ledgerConsistent s' g'"
proof -
  let ?s0 = "s\<lparr>currentSimulationTime := currentSimulationTime s + 1\<rparr>"
  from u obtain s1 g1 where gen: "generateFlights ?s0 g = Some (s1, g1)"
    and s': "s' = moveCompletedFlights (fst (updateFlights (assignRunways s1) g1))"
    by (rule updateSimulation_steps)
  from u gen have g': "g' = snd (updateFlights (assignRunways s1) g1)"
    by (simp add: updateSimulation_def split_beta)
  from consistent_generateFlights[OF gen] c
  have c1: "runwaysConsistent s1" "validRefs s1" by simp_all
  from ledgerConsistent_generateFlights[OF gen] l have l1: "ledgerConsistent s1 g1" by simp
  have la: "ledgerConsistent (assignRunways s1) g1"
    using onlyRunways_assignRunways l1 by (rule ledgerConsistent_onlyRunways)
  from consistent_assignRunways[OF c1]
  have "\<forall>f \<in> set (activeFlights (assignRunways s1)). f < length (allFlights (assignRunways s1))"
    by (simp add: validRefs_def)
  from ledgerConsistent_fold_updateFlight[OF la this] show ?thesis
    unfolding s' g' updateFlights_def by (rule ledgerConsistent_moveCompletedFlights)
qed

lemma processAVNPayment_loop_ids:
  "map id_avn (processAVNPayment_loop avnId amount vs heap) = map id_avn heap"
proof (induction vs)
  case Nil
  show ?case by simp
next
  case (Cons v vs)
  have "map id_avn (heap[v := (heap ! v)\<lparr>status := PAID\<rparr>]) = map id_avn heap"
    by (cases "v < length heap") (simp_all add: map_update list_update_same_conv list_update_beyond)
  with Cons show ?case by simp
qed

lemma ledgerConsistent_processAVNPayment:
  assumes "ledgerConsistent s g"
  shows "ledgerConsistent s (processAVNPayment avnId amount s g)"
proof -
  let ?h = "processAVNPayment_loop avnId amount (allAVNs s) (avnHeap g)"
  have "map id_avn ?h = map id_avn (avnHeap g)" by (rule processAVNPayment_loop_ids)
  moreover from this have "length ?h = length (avnHeap g)" by (metis length_map)
  ultimately show ?thesis
    using assms by (simp add: ledgerConsistent_def processAVNPayment_def)
qed

lemma reachable_ledgerConsistent: "reachable sg \<Longrightarrow> ledgerConsistent (fst sg) (snd sg)"
proof (induction rule: reachable.induct)
  case (init rnd clk)
  show ?case by (simp add: ledgerConsistent_init)
next
  case (tick s g s' g')
  from reachable_consistent[OF tick.hyps(1)] have "runwaysConsistent s \<and> validRefs s" by simp
  from ledgerConsistent_updateSimulation[OF tick.hyps(2) this] tick.IH show ?case by simp
next
  case (pay s g avnId amount)
  then show ?case by (simp add: ledgerConsistent_processAVNPayment)
qed

lemma two_occurrences:
  "2 \<le> count (mset xs) x \<Longrightarrow> \<exists>i j. i < j \<and> j < length xs \<and> xs ! i = x \<and> xs ! j = x"
proof (induction xs)
  case Nil
  then show ?case by simp
next
  case (Cons y ys)
  show ?case
  proof (cases "2 \<le> count (mset ys) x")
    case True
    from Cons.IH[OF this] obtain i j where "i < j" "j < length ys" "ys ! i = x" "ys ! j = x"
      by blast
    then have "Suc i < Suc j \<and> Suc j < length (y # ys) \<and> (y # ys) ! Suc i = x
               \<and> (y # ys) ! Suc j = x" by simp
    then show ?thesis by blast
  next
    case False
    with Cons.prems have y: "y = x" and "1 \<le> count (mset ys) x"
      by (auto split: if_splits)
    then have "x \<in> set ys" by (metis count_eq_zero_iff not_one_le_zero set_mset_mset)
    then obtain k where "k < length ys" "ys ! k = x" by (auto simp: in_set_conv_nth)
    with y have "0 < Suc k \<and> Suc k < length (y # ys) \<and> (y # ys) ! 0 = x \<and> (y # ys) ! Suc k = x"
      by simp
    then show ?thesis by blast
  qed
qed

definition violations_run_globals :: Globals where
  "violations_run_globals =
     initial_globals (\<lambda>n. if n = 0 \<or> n = 6 \<or> n = 12 then 50 else 0) (\<lambda>n. 0)"

text \<open>
  Claim C10. The detector of the arrivals and the detector of the departures number
  their notices from two counters of their own: a call of the detector in a reachable
  state creates no notice, or one notice numbered by the counter of the aircraft's
  class, and steps that counter alone. The identifiers of the notices created so far
  are \<open>1000, 1001, ...\<close> up to the arrival counter, each once, together with
  \<open>1000, 1001, ...\<close> up to the departure counter, each once, and the ledger holds every
  notice once. When both detectors have created a notice, the ledger holds two distinct
  notices with the same identifier.
\<close>

theorem notice_ids_two_counters:
  assumes "reachable (s, g)"
  shows "(\<forall>a. snd (checkViolation a g) = g
            \<or> (\<exists>v. avnHeap (snd (checkViolation a g)) = avnHeap g @ [v]
                \<and> (if isArrival a
                    then id_avn v = ArrivalFlight_avnIdCounter g
                         \<and> ArrivalFlight_avnIdCounter (snd (checkViolation a g))
                             = ArrivalFlight_avnIdCounter g + 1
                         \<and> DepartureFlight_avnIdCounter (snd (checkViolation a g))
                             = DepartureFlight_avnIdCounter g
                    else id_avn v = DepartureFlight_avnIdCounter g
                         \<and> DepartureFlight_avnIdCounter (snd (checkViolation a g))
                             = DepartureFlight_avnIdCounter g + 1
                         \<and> ArrivalFlight_avnIdCounter (snd (checkViolation a g))
                             = ArrivalFlight_avnIdCounter g)))
       \<and> mset (map id_avn (avnHeap g))
           = mset [1000..ArrivalFlight_avnIdCounter g - 1]
             + mset [1000..DepartureFlight_avnIdCounter g - 1]
       \<and> allAVNs s = [0..<length (avnHeap g)]
       \<and> (1000 < ArrivalFlight_avnIdCounter g \<and> 1000 < DepartureFlight_avnIdCounter g \<longrightarrow>
            (\<exists>i j. i < j \<and> j < length (allAVNs s) \<and> allAVNs s ! i \<noteq> allAVNs s ! j
                \<and> id_avn (avnHeap g ! (allAVNs s ! i)) = 1000
                \<and> id_avn (avnHeap g ! (allAVNs s ! j)) = 1000))"
proof -
  from reachable_ledgerConsistent[OF assms]
  have led: "allAVNs s = [0..<length (avnHeap g)]"
    and ids: "mset (map id_avn (avnHeap g))
           = mset [1000..ArrivalFlight_avnIdCounter g - 1]
             + mset [1000..DepartureFlight_avnIdCounter g - 1]"
    by (simp_all add: ledgerConsistent_def)
  have step: "snd (checkViolation a g) = g
            \<or> (\<exists>v. avnHeap (snd (checkViolation a g)) = avnHeap g @ [v]
                \<and> (if isArrival a
                    then id_avn v = ArrivalFlight_avnIdCounter g
                         \<and> ArrivalFlight_avnIdCounter (snd (checkViolation a g))
                             = ArrivalFlight_avnIdCounter g + 1
                         \<and> DepartureFlight_avnIdCounter (snd (checkViolation a g))
                             = DepartureFlight_avnIdCounter g
                    else id_avn v = DepartureFlight_avnIdCounter g
                         \<and> DepartureFlight_avnIdCounter (snd (checkViolation a g))
                             = DepartureFlight_avnIdCounter g + 1
                         \<and> ArrivalFlight_avnIdCounter (snd (checkViolation a g))
                             = ArrivalFlight_avnIdCounter g))" for a
    using checkViolation_cases[OF surjective_pairing, of a g] by (auto split: if_splits)
  have dup: "\<exists>i j. i < j \<and> j < length (allAVNs s) \<and> allAVNs s ! i \<noteq> allAVNs s ! j
                \<and> id_avn (avnHeap g ! (allAVNs s ! i)) = 1000
                \<and> id_avn (avnHeap g ! (allAVNs s ! j)) = 1000"
    if c: "1000 < ArrivalFlight_avnIdCounter g" "1000 < DepartureFlight_avnIdCounter g"
  proof -
    from c have "1 \<le> count (mset [1000..ArrivalFlight_avnIdCounter g - 1]) 1000"
      "1 \<le> count (mset [1000..DepartureFlight_avnIdCounter g - 1]) 1000"
      by (simp_all add: upto_rec1)
    moreover have "count (mset (map id_avn (avnHeap g))) 1000
        = count (mset [1000..ArrivalFlight_avnIdCounter g - 1]) 1000
          + count (mset [1000..DepartureFlight_avnIdCounter g - 1]) 1000"
      unfolding ids by (simp only: count_union)
    ultimately have "2 \<le> count (mset (map id_avn (avnHeap g))) 1000" by linarith
    from two_occurrences[OF this] obtain i j where ij: "i < j" "j < length (avnHeap g)"
      "id_avn (avnHeap g ! i) = 1000" "id_avn (avnHeap g ! j) = 1000"
      by auto
    then have "i < j \<and> j < length (allAVNs s) \<and> allAVNs s ! i \<noteq> allAVNs s ! j
                \<and> id_avn (avnHeap g ! (allAVNs s ! i)) = 1000
                \<and> id_avn (avnHeap g ! (allAVNs s ! j)) = 1000"
      by (simp add: led)
    then show ?thesis by blast
  qed
  from step ids led dup show ?thesis by blast
qed

theorem notice_ids_two_counters_witness:
  "\<exists>s g. simulate 3 (FlightScheduler_ctor, violations_run_globals) = Some (s, g)
     \<and> map isArrival (allFlights s) = [True, True, False]
     \<and> ArrivalFlight_avnIdCounter g = 1002 \<and> DepartureFlight_avnIdCounter g = 1001
     \<and> map id_avn (avnHeap g) = [1000, 1001, 1000] \<and> allAVNs s = [0, 1, 2]
     \<and> (\<exists>i j. i < j \<and> j < length (allAVNs s) \<and> allAVNs s ! i \<noteq> allAVNs s ! j
                \<and> id_avn (avnHeap g ! (allAVNs s ! i)) = 1000
                \<and> id_avn (avnHeap g ! (allAVNs s ! j)) = 1000)"
proof -
  have ev: "case simulate 3 (FlightScheduler_ctor, violations_run_globals) of
      Some (s, g) \<Rightarrow> map isArrival (allFlights s) = [True, True, False]
          \<and> ArrivalFlight_avnIdCounter g = 1002 \<and> DepartureFlight_avnIdCounter g = 1001
          \<and> map id_avn (avnHeap g) = [1000, 1001, 1000] \<and> allAVNs s = [0, 1, 2]
    | None \<Rightarrow> False"
    by code_simp
  then obtain s g where run: "simulate 3 (FlightScheduler_ctor, violations_run_globals) = Some (s, g)"
    and f: "map isArrival (allFlights s) = [True, True, False]"
      "ArrivalFlight_avnIdCounter g = 1002" "DepartureFlight_avnIdCounter g = 1001"
      "map id_avn (avnHeap g) = [1000, 1001, 1000]" "allAVNs s = [0, 1, 2]"
    by (cases "simulate 3 (FlightScheduler_ctor, violations_run_globals)") auto
  have "reachable (FlightScheduler_ctor, violations_run_globals)"
    unfolding violations_run_globals_def by (rule reachable.init)
  from simulate_reachable[OF this run] have r: "reachable (s, g)" .
  from f(2,3) have c: "1000 < ArrivalFlight_avnIdCounter g \<and> 1000 < DepartureFlight_avnIdCounter g"
    by simp
  from notice_ids_two_counters[OF r] c
  have "\<exists>i j. i < j \<and> j < length (allAVNs s) \<and> allAVNs s ! i \<noteq> allAVNs s ! j
                \<and> id_avn (avnHeap g ! (allAVNs s ! i)) = 1000
                \<and> id_avn (avnHeap g ! (allAVNs s ! j)) = 1000"
    by blast
  with run f show ?thesis
    by (intro exI[of _ s] exI[of _ g] conjI) assumption+
qed

section \<open>Aircraft with the emergency flag\<close>

text \<open>The condition under which \<^verbatim>\<open>checkViolation\<close> finds a violation in the current phase.\<close>

definition violates :: "Aircraft \<Rightarrow> bool" where
  "violates a =
     (case state a of
        Arrival st \<Rightarrow> fst (ArrivalFlight_violation st (currentSpeed a) (stateTime a))
      | Departure st \<Rightarrow> fst (DepartureFlight_violation st (currentSpeed a) (stateTime a)))"

text \<open>An aircraft with no injected speed whose speed the detector accepts.\<close>

definition withinEnvelope :: "Aircraft \<Rightarrow> bool" where
  "withinEnvelope a = (\<not> maintainViolationSpeed a \<and> 0 \<le> stateTime a \<and> \<not> violates a)"

lemma checkViolation_quiet: "\<not> violates a \<Longrightarrow> checkViolation a g = (a, g)"
  by (cases "state a")
     (auto simp: violates_def checkViolation_def ArrivalFlight_checkViolation_def
        DepartureFlight_checkViolation_def Let_def split: prod.splits)

lemma landingSpeed_le: "0 \<le> t \<Longrightarrow> landingSpeed t \<le> LANDING_START_SPEED"
proof -
  assume "0 \<le> t"
  then have "c_div ((LANDING_START_SPEED - LANDING_END_SPEED) * t) LANDING_TIME
      = ((LANDING_START_SPEED - LANDING_END_SPEED) * t) div LANDING_TIME"
    by (intro c_div_nonneg) (simp_all add: config_defs time_defs)
  moreover from \<open>0 \<le> t\<close>
  have "0 \<le> ((LANDING_START_SPEED - LANDING_END_SPEED) * t) div LANDING_TIME"
    by (simp add: config_defs time_defs pos_imp_zdiv_nonneg_iff)
  ultimately show ?thesis
    by (simp add: landingSpeed_def LANDING_START_SPEED_def LANDING_END_SPEED_def)
qed

lemma takeoffSpeed_le: "takeoffSpeed t \<le> TAKEOFF_MAX_SPEED"
  by (simp add: takeoffSpeed_def)

lemma inject_flagged:
  "isEmergency a \<Longrightarrow> \<not> maintainViolationSpeed a \<Longrightarrow> ArrivalFlight_inject a g = (a, g)"
  "isEmergency a \<Longrightarrow> \<not> maintainViolationSpeed a \<Longrightarrow> DepartureFlight_inject a g = (a, g)"
  by (simp_all add: ArrivalFlight_inject_def DepartureFlight_inject_def)

lemma ArrivalFlight_advance_envelope:
  assumes "state a = Arrival st" and "\<not> maintainViolationSpeed a" and "0 \<le> stateTime a"
    and "\<not> violates a"
  shows "withinEnvelope (fst (ArrivalFlight_advance st (a\<lparr>stateTime := stateTime a + 1\<rparr>) g))"
proof (cases st)
  case HOLDING
  with assms show ?thesis
    using uniform_int_distribution_range[of APPROACH_MIN_SPEED APPROACH_MAX_SPEED g]
    by (auto simp: withinEnvelope_def violates_def split_beta Let_def config_defs)
next
  case APPROACH
  with assms show ?thesis
    by (auto simp: withinEnvelope_def violates_def split_beta Let_def config_defs time_defs)
next
  case LANDING
  with assms show ?thesis
    using uniform_int_distribution_range[of TAXI_MIN_SPEED TAXI_MAX_SPEED g]
      landingSpeed_le[of "stateTime a + 1"]
    by (auto simp: withinEnvelope_def violates_def split_beta Let_def
        TAXI_MIN_SPEED_def TAXI_MAX_SPEED_def)
next
  case TAXI
  with assms show ?thesis
    by (auto simp: withinEnvelope_def violates_def split_beta Let_def config_defs)
next
  case AT_GATE
  with assms show ?thesis
    by (auto simp: withinEnvelope_def violates_def split_beta Let_def config_defs)
qed

lemma DepartureFlight_advance_envelope:
  assumes "state a = Departure st" and "\<not> maintainViolationSpeed a" and "0 \<le> stateTime a"
    and "\<not> violates a"
  shows "withinEnvelope (fst (DepartureFlight_advance st (a\<lparr>stateTime := stateTime a + 1\<rparr>) g))"
proof (cases st)
  case AT_GATE
  with assms show ?thesis
    using uniform_int_distribution_range[of TAXI_MIN_SPEED TAXI_MAX_SPEED g]
    by (auto simp: withinEnvelope_def violates_def split_beta Let_def config_defs)
next
  case TAXI
  with assms show ?thesis
    by (auto simp: withinEnvelope_def violates_def split_beta Let_def config_defs)
next
  case TAKEOFF_ROLL
  with assms show ?thesis
    using uniform_int_distribution_range[of CLIMB_MIN_SPEED CLIMB_MAX_SPEED g]
      takeoffSpeed_le[of "stateTime a + 1"]
    by (auto simp: withinEnvelope_def violates_def split_beta Let_def
        CLIMB_MIN_SPEED_def CLIMB_MAX_SPEED_def)
next
  case CLIMB
  with assms show ?thesis
    using uniform_int_distribution_range[of CRUISE_MIN_SPEED CRUISE_MAX_SPEED g]
    by (auto simp: withinEnvelope_def violates_def split_beta Let_def config_defs)
next
  case CRUISE
  with assms show ?thesis
    by (auto simp: withinEnvelope_def violates_def split_beta Let_def config_defs)
qed


lemma withinEnvelope_upd [simp]:
  "withinEnvelope (a\<lparr>assignedRunway := r\<rparr>) = withinEnvelope a"
  "withinEnvelope (a\<lparr>hasActiveViolation := h\<rparr>) = withinEnvelope a"
  "withinEnvelope (a\<lparr>currentViolation := c\<rparr>) = withinEnvelope a"
  "withinEnvelope (a\<lparr>isEmergency := e\<rparr>) = withinEnvelope a"
  by (simp_all add: withinEnvelope_def violates_def split: FlightState.split)

lemma withinEnvelope_clear:
  "withinEnvelope a \<Longrightarrow> a\<lparr>maintainViolationSpeed := False\<rparr> = a"
  by (simp add: withinEnvelope_def)

text \<open>
  One call of \<^verbatim>\<open>updateStatus\<close> for an aircraft with the emergency flag: no speed is
  injected, the detector accepts the speed, no notice is created.
\<close>

lemma updateStatus_flagged:
  assumes e: "isEmergency a" and w: "withinEnvelope a"
  shows "withinEnvelope (fst (updateStatus a g))"
    and "isEmergency (fst (updateStatus a g))"
    and "violationState (fst (updateStatus a g)) = violationState a"
    and "avnState (snd (updateStatus a g)) = avnState g"
proof -
  let ?a0 = "a\<lparr>stateTime := stateTime a + 1\<rparr>"
  from w have m: "\<not> maintainViolationSpeed a" and t: "0 \<le> stateTime a" and v: "\<not> violates a"
    by (simp_all add: withinEnvelope_def)
  have b: "withinEnvelope (fst (beforeCheck a g))"
  proof (cases "state a")
    case (Arrival st)
    let ?a1 = "fst (ArrivalFlight_advance st ?a0 g)"
    have w1: "withinEnvelope ?a1" using Arrival m t v by (rule ArrivalFlight_advance_envelope)
    have "identity ?a1 = identity a" by (simp add: ArrivalFlight_advance_frame)
    with e have e1: "isEmergency ?a1" by (simp add: identity_def)
    from w1 have m1: "\<not> maintainViolationSpeed ?a1" by (simp add: withinEnvelope_def)
    show ?thesis
      using Arrival w1
      by (simp add: beforeCheck_def Let_def split_beta withinEnvelope_clear[OF w1]
          inject_flagged(1)[OF e1 m1])
  next
    case (Departure st)
    let ?a1 = "fst (DepartureFlight_advance st ?a0 g)"
    have w1: "withinEnvelope ?a1" using Departure m t v by (rule DepartureFlight_advance_envelope)
    have "identity ?a1 = identity a" by (simp add: DepartureFlight_advance_frame)
    with e have e1: "isEmergency ?a1" by (simp add: identity_def)
    from w1 have m1: "\<not> maintainViolationSpeed ?a1" by (simp add: withinEnvelope_def)
    show ?thesis
      using Departure w1
      by (simp add: beforeCheck_def Let_def split_beta withinEnvelope_clear[OF w1]
          inject_flagged(2)[OF e1 m1])
  qed
  then have "\<not> violates (fst (beforeCheck a g))" by (simp add: withinEnvelope_def)
  from checkViolation_quiet[OF this, of "snd (beforeCheck a g)"]
  have u: "updateStatus a g = beforeCheck a g" by (simp add: updateStatus_beforeCheck)
  note fr = beforeCheck_frame[of a g]
  show "withinEnvelope (fst (updateStatus a g))" using b by (simp add: u)
  show "isEmergency (fst (updateStatus a g))" using fr(3) e by (simp add: u identity_def)
  show "violationState (fst (updateStatus a g)) = violationState a" using fr(2) by (simp add: u)
  show "avnState (snd (updateStatus a g)) = avnState g" using fr(1) by (simp add: u)
qed

text \<open>Every aircraft with the emergency flag is within the envelope and has never had a
  notice.\<close>

definition flaggedQuiet :: "FlightScheduler \<Rightarrow> bool" where
  "flaggedQuiet s =
     (\<forall>i < length (allFlights s). isEmergency (allFlights s ! i) \<longrightarrow>
        withinEnvelope (allFlights s ! i) \<and> violatedStates (allFlights s ! i) = {})"

lemma flaggedQuiet_last [simp]:
  "flaggedQuiet (s\<lparr>lastNorthArrival := t\<rparr>) = flaggedQuiet s"
  "flaggedQuiet (s\<lparr>lastSouthArrival := t\<rparr>) = flaggedQuiet s"
  "flaggedQuiet (s\<lparr>lastEastDeparture := t\<rparr>) = flaggedQuiet s"
  "flaggedQuiet (s\<lparr>lastWestDeparture := t\<rparr>) = flaggedQuiet s"
  "flaggedQuiet (s\<lparr>currentSimulationTime := t\<rparr>) = flaggedQuiet s"
  by (simp_all add: flaggedQuiet_def)

lemma flaggedQuiet_spawnFlight:
  assumes sp: "spawnFlight prob sp base arr d s g = Some (s', g')" and q: "flaggedQuiet s"
  shows "flaggedQuiet s'"
proof -
  from spawnFlight_Some[OF sp] obtain f e al where
    f: "fresh al (flightTypeOf e al sp) d (priorityOf e (flightTypeOf e al sp)) (f\<lparr>isEmergency := False\<rparr>)"
    and st: "if arr then state f = Arrival HOLDING \<and> currentSpeed f \<le> HOLDING_MAX_SPEED
               else state f = Departure DepartureState.AT_GATE \<and> currentSpeed f = 0"
    and s': "s' = (if arr
                   then s\<lparr>allFlights := allFlights s @ [f],
                          activeFlights := activeFlights s @ [length (allFlights s)],
                          runwayAQueue := runwayAQueue s @ [length (allFlights s)]\<rparr>
                   else s\<lparr>allFlights := allFlights s @ [f],
                          activeFlights := activeFlights s @ [length (allFlights s)],
                          runwayBQueue := runwayBQueue s @ [length (allFlights s)]\<rparr>)"
    by blast
  from f have ff: "\<not> maintainViolationSpeed f" "stateTime f = 0" "violatedStates f = {}"
    by (simp_all add: fresh_def)
  from st have "\<not> violates f"
    by (cases arr) (simp_all add: violates_def GATE_MAX_SPEED_def)
  with ff have wf: "withinEnvelope f" by (simp add: withinEnvelope_def)
  have fs: "allFlights s' = allFlights s @ [f]" by (simp add: s')
  have "withinEnvelope (allFlights s' ! i) \<and> violatedStates (allFlights s' ! i) = {}"
    if "i < length (allFlights s')" "isEmergency (allFlights s' ! i)" for i
  proof (cases "i < length (allFlights s)")
    case True
    with q that(2) show ?thesis by (simp add: fs nth_append flaggedQuiet_def)
  next
    case False
    with that(1) have "i = length (allFlights s)" by (simp add: fs)
    with wf ff(3) show ?thesis by (simp add: fs)
  qed
  then show ?thesis by (simp add: flaggedQuiet_def)
qed

lemma flaggedQuiet_generateFlights:
  assumes "generateFlights s g = Some (s', g')" and "flaggedQuiet s"
  shows "flaggedQuiet s'"
  by (rule generateFlights_rule[OF assms(1), where P = "\<lambda>s g. flaggedQuiet s"])
     (use assms(2) flaggedQuiet_spawnFlight in auto)

lemma flaggedQuiet_onlyRunways:
  assumes o: "onlyRunways s s'" and q: "flaggedQuiet s"
  shows "flaggedQuiet s'"
proof -
  have "withinEnvelope (allFlights s' ! i) \<and> violatedStates (allFlights s' ! i) = {}"
    if i: "i < length (allFlights s')" and e: "isEmergency (allFlights s' ! i)" for i
  proof -
    from o i have il: "i < length (allFlights s)" by (simp add: onlyRunways_def)
    with o have eq: "allFlights s' ! i
        = (allFlights s ! i)\<lparr>assignedRunway := assignedRunway (allFlights s' ! i)\<rparr>"
      by (simp add: onlyRunways_def)
    from e have "isEmergency ((allFlights s ! i)\<lparr>assignedRunway := assignedRunway (allFlights s' ! i)\<rparr>)"
      by (subst (asm) eq)
    then have "isEmergency (allFlights s ! i)" by simp
    with q il have "withinEnvelope (allFlights s ! i)" "violatedStates (allFlights s ! i) = {}"
      by (simp_all add: flaggedQuiet_def)
    then have "withinEnvelope ((allFlights s ! i)\<lparr>assignedRunway := assignedRunway (allFlights s' ! i)\<rparr>)
       \<and> violatedStates ((allFlights s ! i)\<lparr>assignedRunway := assignedRunway (allFlights s' ! i)\<rparr>) = {}"
      by simp
    then show ?thesis by (subst (1 2) eq)
  qed
  then show ?thesis by (simp add: flaggedQuiet_def)
qed


lemma flaggedQuiet_updateFlight:
  assumes q: "flaggedQuiet s" and l: "ledgerConsistent s g" and f: "f < length (allFlights s)"
  shows "flaggedQuiet (fst (updateFlight f (s, g)))"
proof -
  let ?a = "allFlights s ! f"
  from l f have nv: "currentViolation ?a = None" and al: "airline ?a \<in> fst ` set (airlines s)"
    by (simp_all add: ledgerConsistent_def)
  from q have rest: "\<And>i. i < length (allFlights s) \<Longrightarrow> isEmergency (allFlights s ! i) \<Longrightarrow>
      withinEnvelope (allFlights s ! i) \<and> violatedStates (allFlights s ! i) = {}"
    by (simp add: flaggedQuiet_def)
  show ?thesis
  proof (rule updateFlight_cases[OF nv al, where g = g], goal_cases)
    case quiet: (1 a' g')
    from quiet(5) have em: "isEmergency a' = isEmergency ?a" by (simp add: identity_def)
    have new: "withinEnvelope a' \<and> violatedStates a' = {}" if "isEmergency a'"
    proof -
      from that em have e: "isEmergency ?a" by simp
      note r = rest[OF f e]
      from updateStatus_flagged(1,3)[OF e, of g] r quiet(2)
      show ?thesis by (simp add: violationState_def)
    qed
    have "withinEnvelope ((allFlights s)[f := a'] ! i)
          \<and> violatedStates ((allFlights s)[f := a'] ! i) = {}"
      if "i < length (allFlights s)" "isEmergency ((allFlights s)[f := a'] ! i)" for i
      using that rest[of i] new by (cases "i = f") simp_all
    then show ?thesis by (simp add: quiet(1) flaggedQuiet_def)
  next
    case notice: (2 a' g' g1 v)
    from notice(5) have em: "isEmergency a' = isEmergency ?a" by (simp add: identity_def)
    have ne: "\<not> isEmergency ?a"
    proof
      assume e: "isEmergency ?a"
      from updateStatus_flagged(4)[OF e, of g] rest[OF f e] notice(2)
      have "avnHeap g1 = avnHeap g" by (simp add: avnState_def)
      with notice(3) show False by simp
    qed
    let ?fs = "(allFlights s)[f := a'\<lparr>hasActiveViolation := False, currentViolation := None\<rparr>]"
    have "withinEnvelope (?fs ! i) \<and> violatedStates (?fs ! i) = {}"
      if "i < length (allFlights s)" "isEmergency (?fs ! i)" for i
      using that rest[of i] ne em by (cases "i = f") simp_all
    then show ?thesis by (simp add: notice(1) flaggedQuiet_def)
  qed
qed

lemma flaggedQuiet_fold_updateFlight:
  assumes "flaggedQuiet s" and "ledgerConsistent s g"
    and "\<forall>f \<in> set fs. f < length (allFlights s)"
  shows "flaggedQuiet (fst (fold updateFlight fs (s, g)))"
  using assms
proof (induction fs arbitrary: s g)
  case Nil
  then show ?case by simp
next
  case (Cons f fs)
  obtain s1 g1 where u: "updateFlight f (s, g) = (s1, g1)" by (cases "updateFlight f (s, g)") auto
  from flaggedQuiet_updateFlight[OF Cons.prems(1,2), of f] Cons.prems(3) u
  have q: "flaggedQuiet s1" by simp
  from ledgerConsistent_updateFlight[OF Cons.prems(2), of f] Cons.prems(3) u
  have l: "ledgerConsistent s1 g1" by simp
  from runwaysUntouched_updateFlight[of s f g] u
  have "length (allFlights s1) = length (allFlights s)" by (simp add: runwaysUntouched_def)
  with Cons.prems(3) have "\<forall>f \<in> set fs. f < length (allFlights s1)" by simp
  from Cons.IH[OF q l this] u show ?case by simp
qed

lemma flaggedQuiet_updateSimulation:
  assumes u: "updateSimulation s g = Some (s', g')"
    and c: "runwaysConsistent s \<and> validRefs s" and l: "ledgerConsistent s g"
    and q: "flaggedQuiet s"
  shows "flaggedQuiet s'"
proof -
  let ?s0 = "s\<lparr>currentSimulationTime := currentSimulationTime s + 1\<rparr>"
  from u obtain s1 g1 where gen: "generateFlights ?s0 g = Some (s1, g1)"
    and s': "s' = moveCompletedFlights (fst (updateFlights (assignRunways s1) g1))"
    by (rule updateSimulation_steps)
  from consistent_generateFlights[OF gen] c
  have c1: "runwaysConsistent s1" "validRefs s1" by simp_all
  from ledgerConsistent_generateFlights[OF gen] l have l1: "ledgerConsistent s1 g1" by simp
  from flaggedQuiet_generateFlights[OF gen] q have q1: "flaggedQuiet s1" by simp
  have la: "ledgerConsistent (assignRunways s1) g1"
    using onlyRunways_assignRunways l1 by (rule ledgerConsistent_onlyRunways)
  have qa: "flaggedQuiet (assignRunways s1)"
    using onlyRunways_assignRunways q1 by (rule flaggedQuiet_onlyRunways)
  from consistent_assignRunways[OF c1]
  have "\<forall>f \<in> set (activeFlights (assignRunways s1)). f < length (allFlights (assignRunways s1))"
    by (simp add: validRefs_def)
  from flaggedQuiet_fold_updateFlight[OF qa la this] show ?thesis
    by (simp add: s' updateFlights_def flaggedQuiet_def)
qed

lemma reachable_flaggedQuiet: "reachable sg \<Longrightarrow> flaggedQuiet (fst sg)"
proof (induction rule: reachable.induct)
  case (init rnd clk)
  show ?case by (simp add: flaggedQuiet_def FlightScheduler_ctor_fields)
next
  case (tick s g s' g')
  from reachable_consistent[OF tick.hyps(1)] have c: "runwaysConsistent s \<and> validRefs s" by simp
  from reachable_ledgerConsistent[OF tick.hyps(1)] have l: "ledgerConsistent s g" by simp
  from flaggedQuiet_updateSimulation[OF tick.hyps(2) c l] tick.IH show ?case by simp
next
  case (pay s g avnId amount)
  then show ?case by simp
qed

definition emergency_category_globals :: Globals where
  "emergency_category_globals =
     initial_globals (\<lambda>n. if n = 0 then 50 else if n = 1 then 5 else if n = 5 then 35 else 0)
       (\<lambda>n. 0)"

definition emergency_flag_globals :: Globals where
  "emergency_flag_globals = initial_globals (\<lambda>n. 0) (\<lambda>n. 0)"

text \<open>
  Claim C1 says that no notice is ever created for an aircraft whose flight category is
  Emergency. The first tick of a run: the arrival generated from the North is of
  Pakistan Airforce, so its category is Emergency, but the emergency draw failed and its
  emergency flag is not set; a speed of 640 is injected in Holding and the detector
  creates notice 1000 for it, which goes to the ledger.
\<close>

theorem emergency_category_counterexample:
  "(case simulate 1 (FlightScheduler_ctor, emergency_category_globals) of
      Some (s, g) \<Rightarrow>
        type (allFlights s ! 0) = EMERGENCY \<and> airline (allFlights s ! 0) = ''Pakistan Airforce''
        \<and> \<not> isEmergency (allFlights s ! 0)
        \<and> state (allFlights s ! 0) = Arrival HOLDING \<and> currentSpeed (allFlights s ! 0) = 640
        \<and> ''Holding'' \<in> violatedStates (allFlights s ! 0)
        \<and> allAVNs s = [0] \<and> length (avnHeap g) = 1
        \<and> id_avn (avnHeap g ! 0) = 1000 \<and> aircraftType (avnHeap g ! 0) = EMERGENCY
        \<and> flightNumber_avn (avnHeap g ! 0) = flightNumber (allFlights s ! 0)
        \<and> recordedSpeed (avnHeap g ! 0) = 640
    | None \<Rightarrow> False)"
  by code_simp

text \<open>
  Claim C1, amended. The guard of the injection step is the emergency flag of the
  aircraft, not its category. In every reachable state an aircraft whose emergency flag
  is set has no injected speed, a speed that the detector accepts, no notice pending and
  no phase in which it ever had a notice; and its next \<^verbatim>\<open>updateStatus\<close>, whatever runway it
  has been given and whatever the random engine and the clock do, injects no speed,
  creates no notice and moves no counter. An aircraft of category Emergency without the
  flag is treated like any other aircraft.
\<close>

theorem flagged_emergency_no_notice:
  assumes "reachable (s, g)" and "i < length (allFlights s)"
    and "isEmergency (allFlights s ! i)"
  shows "\<not> maintainViolationSpeed (allFlights s ! i) \<and> \<not> violates (allFlights s ! i)
       \<and> currentViolation (allFlights s ! i) = None \<and> violatedStates (allFlights s ! i) = {}
       \<and> (\<forall>r h. avnState (snd (updateStatus ((allFlights s ! i)\<lparr>assignedRunway := r\<rparr>) h))
                   = avnState h
               \<and> \<not> maintainViolationSpeed
                     (fst (updateStatus ((allFlights s ! i)\<lparr>assignedRunway := r\<rparr>) h))
               \<and> violationState
                     (fst (updateStatus ((allFlights s ! i)\<lparr>assignedRunway := r\<rparr>) h))
                   = violationState (allFlights s ! i))"
proof -
  let ?a = "allFlights s ! i"
  from reachable_flaggedQuiet[OF assms(1)] assms(2,3)
  have w: "withinEnvelope ?a" and vs: "violatedStates ?a = {}"
    by (simp_all add: flaggedQuiet_def)
  from reachable_ledgerConsistent[OF assms(1)] assms(2)
  have cv: "currentViolation ?a = None" by (simp add: ledgerConsistent_def)
  have step: "avnState (snd (updateStatus (?a\<lparr>assignedRunway := r\<rparr>) h)) = avnState h
               \<and> \<not> maintainViolationSpeed (fst (updateStatus (?a\<lparr>assignedRunway := r\<rparr>) h))
               \<and> violationState (fst (updateStatus (?a\<lparr>assignedRunway := r\<rparr>) h))
                   = violationState ?a" for r h
  proof -
    have e: "isEmergency (?a\<lparr>assignedRunway := r\<rparr>)" using assms(3) by simp
    have w': "withinEnvelope (?a\<lparr>assignedRunway := r\<rparr>)" using w by simp
    from updateStatus_flagged[OF e w', of h] show ?thesis
      by (simp add: withinEnvelope_def violationState_def)
  qed
  from w vs cv step show ?thesis by (simp add: withinEnvelope_def)
qed

theorem flagged_emergency_no_notice_witness:
  "\<exists>s g. simulate 1 (FlightScheduler_ctor, emergency_flag_globals) = Some (s, g)
     \<and> length (allFlights s) = 1 \<and> isEmergency (allFlights s ! 0)
     \<and> type (allFlights s ! 0) = EMERGENCY \<and> assignedRunway (allFlights s ! 0) = RWY_C
     \<and> violatedStates (allFlights s ! 0) = {} \<and> avnHeap g = []
     \<and> avnHeap (snd (updateStatus (allFlights s ! 0) g)) = []"
proof -
  have ev: "case simulate 1 (FlightScheduler_ctor, emergency_flag_globals) of
      Some (s, g) \<Rightarrow> length (allFlights s) = 1 \<and> isEmergency (allFlights s ! 0)
          \<and> type (allFlights s ! 0) = EMERGENCY \<and> assignedRunway (allFlights s ! 0) = RWY_C
          \<and> avnHeap g = []
    | None \<Rightarrow> False"
    by code_simp
  then obtain s g where run: "simulate 1 (FlightScheduler_ctor, emergency_flag_globals) = Some (s, g)"
    and f: "length (allFlights s) = 1" "isEmergency (allFlights s ! 0)"
      "type (allFlights s ! 0) = EMERGENCY" "assignedRunway (allFlights s ! 0) = RWY_C"
      "avnHeap g = []"
    by (cases "simulate 1 (FlightScheduler_ctor, emergency_flag_globals)") auto
  have "reachable (FlightScheduler_ctor, emergency_flag_globals)"
    unfolding emergency_flag_globals_def by (rule reachable.init)
  from simulate_reachable[OF this run] have r: "reachable (s, g)" .
  from f(1) have i: "0 < length (allFlights s)" by simp
  note t = flagged_emergency_no_notice[OF r i f(2)]
  from t have vs: "violatedStates (allFlights s ! 0) = {}" by simp
  from t have "avnState (snd (updateStatus ((allFlights s ! 0)\<lparr>assignedRunway := RWY_C\<rparr>) g))
      = avnState g" by blast
  moreover have "(allFlights s ! 0)\<lparr>assignedRunway := RWY_C\<rparr> = allFlights s ! 0"
    using f(4) by simp
  ultimately have "avnHeap (snd (updateStatus (allFlights s ! 0) g)) = []"
    using f(5) by (simp add: avnState_def)
  with run f vs show ?thesis
    by (intro exI[of _ s] exI[of _ g] conjI) assumption+
qed

section \<open>Order in which the queues are served\<close>

text \<open>
  The order in which a loop of \<^verbatim>\<open>assignRunways\<close> pops its queue: \<^verbatim>\<open>top()\<close>, \<^verbatim>\<open>pop()\<close>,
  until the queue is empty.
\<close>

function popOrder :: "Aircraft list \<Rightarrow> nat list \<Rightarrow> nat list" where
  "popOrder fs q = (if q = [] then [] else pq_top fs q # popOrder fs (pq_pop fs q))"
  by pat_completeness auto
termination
  by (relation "measure (\<lambda>(fs, q). length q)") (simp_all add: length_pq_pop)

declare popOrder.simps [simp del]

text \<open>The runways still to be had by the aircraft of a queue.\<close>

definition slotsA :: "FlightScheduler \<Rightarrow> nat" where
  "slotsA s = (if runwayAEligible s then 1 else 0) + (if runwayCEligible s then 1 else 0)"

definition slotsB :: "FlightScheduler \<Rightarrow> nat" where
  "slotsB s = (if runwayBEligible s then 1 else 0) + (if runwayCEligible s then 1 else 0)"

lemma popOrder_Nil [simp]: "popOrder fs [] = []"
  by (simp add: popOrder.simps)

lemma popOrder_step: "q \<noteq> [] \<Longrightarrow> popOrder fs q = pq_top fs q # popOrder fs (pq_pop fs q)"
  by (subst popOrder.simps) simp

lemma popOrder_mset: "mset (popOrder fs q) = mset q"
proof (induction fs q rule: popOrder.induct)
  case (1 fs q)
  show ?case
  proof (cases "q = []")
    case True
    then show ?thesis by simp
  next
    case False
    from pq_top_mem[OF False, of fs] have "pq_top fs q \<in># mset q" by simp
    then have "add_mset (pq_top fs q) (mset (remove1 (pq_top fs q) q)) = mset q"
      by simp
    with 1[OF False] False show ?thesis
      by (simp add: popOrder_step pq_pop_def del: pq_top.simps)
  qed
qed

lemma popOrder_set [simp]: "set (popOrder fs q) = set q"
  using popOrder_mset[of fs q] by (metis set_mset_mset)

lemma popOrder_length [simp]: "length (popOrder fs q) = length q"
  using popOrder_mset[of fs q] by (metis size_mset)

lemma popOrder_distinct [simp]: "distinct (popOrder fs q) = distinct q"
  using popOrder_mset[of fs q] by (metis mset_eq_imp_distinct_iff)







lemma try_eligible:
  "runwayAEligible s \<Longrightarrow> \<not> runwayAEligible (fst (tryRunwayA a s))"
  "runwayBEligible (fst (tryRunwayA a s)) = runwayBEligible s"
  "runwayCEligible (fst (tryRunwayA a s)) = runwayCEligible s"
  "runwayBEligible s \<Longrightarrow> \<not> runwayBEligible (fst (tryRunwayB a s))"
  "runwayAEligible (fst (tryRunwayB a s)) = runwayAEligible s"
  "runwayCEligible (fst (tryRunwayB a s)) = runwayCEligible s"
  "runwayCEligible s \<Longrightarrow> \<not> runwayCEligible (fst (tryRunwayC a s))"
  "runwayAEligible (fst (tryRunwayC a s)) = runwayAEligible s"
  "runwayBEligible (fst (tryRunwayC a s)) = runwayBEligible s"
  by (simp_all add: try_simps runwayAEligible_def runwayBEligible_def runwayCEligible_def)

lemma eligible_queue_upd2 [simp]:
  "runwayBEligible (s\<lparr>runwayAQueue := q\<rparr>) = runwayBEligible s"
  "runwayAEligible (s\<lparr>runwayBQueue := q\<rparr>) = runwayAEligible s"
  "runwayAEligible (s\<lparr>runwayCQueue := q\<rparr>) = runwayAEligible s"
  "runwayBEligible (s\<lparr>runwayCQueue := q\<rparr>) = runwayBEligible s"
  by (simp_all add: runwayAEligible_def runwayBEligible_def)

lemma slots_queue_upd [simp]:
  "slotsA (s\<lparr>runwayAQueue := q\<rparr>) = slotsA s" "slotsB (s\<lparr>runwayAQueue := q\<rparr>) = slotsB s"
  "slotsA (s\<lparr>runwayBQueue := q\<rparr>) = slotsA s" "slotsB (s\<lparr>runwayBQueue := q\<rparr>) = slotsB s"
  "slotsA (s\<lparr>runwayCQueue := q\<rparr>) = slotsA s" "slotsB (s\<lparr>runwayCQueue := q\<rparr>) = slotsB s"
  by (simp_all add: slotsA_def slotsB_def)








text \<open>
  The queues as \<^verbatim>\<open>generateFlights\<close> and \<^verbatim>\<open>assignRunways\<close> leave them: the queue of runway A
  holds distinct arrivals from the North and South that are in Holding and have no
  runway, the queue of runway B distinct departures to the East and West that are at the
  gate and have no runway, and the queue of runway C is empty (nothing pushes on it).
\<close>

definition queuesWellFormed :: "FlightScheduler \<Rightarrow> bool" where
  "queuesWellFormed s =
     (distinct (runwayAQueue s) \<and> distinct (runwayBQueue s) \<and> runwayCQueue s = []
      \<and> (\<forall>a \<in> set (runwayAQueue s).
            a < length (allFlights s) \<and> assignedRunway (allFlights s ! a) = NONE
            \<and> state (allFlights s ! a) = Arrival HOLDING
            \<and> (direction (allFlights s ! a) = NORTH \<or> direction (allFlights s ! a) = SOUTH))
      \<and> (\<forall>a \<in> set (runwayBQueue s).
            a < length (allFlights s) \<and> assignedRunway (allFlights s ! a) = NONE
            \<and> state (allFlights s ! a) = Departure DepartureState.AT_GATE
            \<and> (direction (allFlights s ! a) = EAST \<or> direction (allFlights s ! a) = WEST)))"











lemma queuesWellFormed_last [simp]:
  "queuesWellFormed (s\<lparr>lastNorthArrival := t\<rparr>) = queuesWellFormed s"
  "queuesWellFormed (s\<lparr>lastSouthArrival := t\<rparr>) = queuesWellFormed s"
  "queuesWellFormed (s\<lparr>lastEastDeparture := t\<rparr>) = queuesWellFormed s"
  "queuesWellFormed (s\<lparr>lastWestDeparture := t\<rparr>) = queuesWellFormed s"
  "queuesWellFormed (s\<lparr>currentSimulationTime := t\<rparr>) = queuesWellFormed s"
  by (simp_all add: queuesWellFormed_def)

























section \<open>The Landing check of the violation detector\<close>

definition landing_run_globals :: Globals where
  "landing_run_globals =
     initial_globals (\<lambda>n. if n = 169 \<or> n = 170 \<or> n = 211 \<or> n = 212 then 0
                            else if n = 171 \<or> n = 213 then 35 else 50) (\<lambda>n. 0)"

lemma landingSpeed_late: "6 \<le> t \<Longrightarrow> landingSpeed t \<le> 114"
proof -
  assume t: "6 \<le> t"
  then have "c_div ((LANDING_START_SPEED - LANDING_END_SPEED) * t) LANDING_TIME
      = ((LANDING_START_SPEED - LANDING_END_SPEED) * t) div LANDING_TIME"
    by (intro c_div_nonneg) (simp_all add: config_defs time_defs)
  moreover from t have "126 \<le> (210 * t) div 10" by simp
  ultimately show ?thesis
    by (simp add: landingSpeed_def config_defs time_defs)
qed

lemma landing_inject:
  assumes "state a = Arrival LANDING" and "\<not> maintainViolationSpeed a"
  shows "fst (ArrivalFlight_inject a g) = a
       \<or> (c_div LANDING_TIME 2 < stateTime a
          \<and> (\<exists>e. 5 \<le> e \<and> e \<le> MAX_VIOLATION_SPEED_EXCESS
                \<and> fst (ArrivalFlight_inject a g)
                    = a\<lparr>currentSpeed := currentSpeed a + e, maintainViolationSpeed := True,
                        violationSpeed := currentSpeed a + e\<rparr>))"
proof -
  have r: "5 \<le> fst (uniform_int_distribution 5 MAX_VIOLATION_SPEED_EXCESS h)
       \<and> fst (uniform_int_distribution 5 MAX_VIOLATION_SPEED_EXCESS h) \<le> MAX_VIOLATION_SPEED_EXCESS" for h
    by (rule uniform_int_distribution_range) (simp add: config_defs)
  show ?thesis
    using assms r
    by (auto simp: ArrivalFlight_inject_def Let_def split_beta)
qed

lemma landing_injection_never_flagged:
  assumes l: "state a = Arrival LANDING" and m: "\<not> maintainViolationSpeed a"
    and t: "0 \<le> stateTime a"
    and r: "state (fst (updateStatus a g)) = Arrival LANDING"
  shows "avnHeap (snd (updateStatus a g)) = avnHeap g
       \<and> violationState (fst (updateStatus a g)) = violationState a
       \<and> stateTime (fst (updateStatus a g)) < LANDING_TIME
       \<and> currentSpeed (fst (updateStatus a g)) \<le> LANDING_START_SPEED
       \<and> (maintainViolationSpeed (fst (updateStatus a g)) \<longrightarrow>
            landingSpeed (stateTime (fst (updateStatus a g)))
              < currentSpeed (fst (updateStatus a g)))"
proof -
  let ?t = "stateTime a + 1"
  let ?b = "fst (beforeCheck a g)"
  define a1 where "a1 = a\<lparr>stateTime := ?t, currentSpeed := landingSpeed ?t\<rparr>"
  have sb: "state ?b = Arrival LANDING"
    using r by (simp add: updateStatus_beforeCheck checkViolation_state)
  have stay: "?t < LANDING_TIME"
  proof (rule ccontr)
    assume "\<not> ?t < LANDING_TIME"
    then have "state ?b = Arrival ArrivalState.TAXI"
      using l m by (simp add: beforeCheck_def Let_def split_beta inject_frame)
    with sb show False by simp
  qed
  then have b: "?b = fst (ArrivalFlight_inject a1 g)"
    using l m by (simp add: beforeCheck_def Let_def a1_def)
  have a1: "state a1 = Arrival LANDING" "\<not> maintainViolationSpeed a1" "stateTime a1 = ?t"
    "currentSpeed a1 = landingSpeed ?t" "violationState a1 = violationState a"
    using l m by (simp_all add: a1_def violationState_def)
  have le: "landingSpeed ?t \<le> LANDING_START_SPEED" using t by (intro landingSpeed_le) simp
  from landing_inject[OF a1(1,2), of g]
  have nb: "\<not> violates ?b \<and> violationState ?b = violationState a
      \<and> stateTime ?b < LANDING_TIME \<and> currentSpeed ?b \<le> LANDING_START_SPEED
      \<and> (maintainViolationSpeed ?b \<longrightarrow> landingSpeed (stateTime ?b) < currentSpeed ?b)"
  proof (elim disjE conjE exE)
    assume "fst (ArrivalFlight_inject a1 g) = a1"
    with a1 stay le show ?thesis
      by (simp add: b violates_def)
  next
    fix e
    assume late: "c_div LANDING_TIME 2 < stateTime a1"
      and e: "5 \<le> e" "e \<le> MAX_VIOLATION_SPEED_EXCESS"
      and j: "fst (ArrivalFlight_inject a1 g)
                    = a1\<lparr>currentSpeed := currentSpeed a1 + e, maintainViolationSpeed := True,
                        violationSpeed := currentSpeed a1 + e\<rparr>"
    from late a1(3) have "6 \<le> ?t" by (simp add: c_div_def time_defs)
    from landingSpeed_late[OF this] have "landingSpeed ?t \<le> 114" .
    with a1 stay e show ?thesis
      by (simp add: b j violates_def violationState_def config_defs)
  qed
  then have "\<not> violates ?b" by simp
  from checkViolation_quiet[OF this, of "snd (beforeCheck a g)"]
  have u: "updateStatus a g = beforeCheck a g" by (simp add: updateStatus_beforeCheck)
  from nb beforeCheck_frame(1)[of a g] show ?thesis
    by (simp add: u avnState_def)
qed

text \<open>
  Claim C7. The detector is to flag a Landing speed above the decreasing value expected
  in the current tick. The program's own injection in Landing sets such a speed (the
  expected value plus the excess drawn, held until the phase changes), and the detector,
  which compares with the constant \<open>LANDING_START_SPEED\<close>, does not flag it; the injection
  of every other phase is flagged by the same call. In the run: after tick 41 the
  arrival is in its sixth Landing tick, held at 154 where 114 is expected, and after tick
  44 still at 154 where 51 is expected, and there is no notice; in tick 51 the injection
  in the take-off roll of a departure is flagged at once.
\<close>

theorem landing_injection_not_flagged:
  "(case simulate 41 (FlightScheduler_ctor, landing_run_globals) of
      Some (s, g) \<Rightarrow>
        state (allFlights s ! 0) = Arrival LANDING \<and> stateTime (allFlights s ! 0) = 6
        \<and> landingSpeed 6 = 114 \<and> currentSpeed (allFlights s ! 0) = 154
        \<and> maintainViolationSpeed (allFlights s ! 0) \<and> violationSpeed (allFlights s ! 0) = 154
        \<and> ''Landing'' \<notin> violatedStates (allFlights s ! 0)
        \<and> avnHeap g = [] \<and> allAVNs s = []
        \<and> (case simulate 3 (s, g) of
              Some (s', g') \<Rightarrow>
                state (allFlights s' ! 0) = Arrival LANDING \<and> stateTime (allFlights s' ! 0) = 9
                \<and> landingSpeed 9 = 51 \<and> currentSpeed (allFlights s' ! 0) = 154
                \<and> ''Landing'' \<notin> violatedStates (allFlights s' ! 0)
                \<and> avnHeap g' = [] \<and> allAVNs s' = []
                \<and> (case simulate 7 (s', g') of
                      Some (s'', g'') \<Rightarrow>
                        state (allFlights s'' ! 3) = Departure TAKEOFF_ROLL
                        \<and> stateTime (allFlights s'' ! 3) = 6
                        \<and> currentSpeed (allFlights s'' ! 3) = 330
                        \<and> ''Takeoff Roll'' \<in> violatedStates (allFlights s'' ! 3)
                        \<and> ''Landing'' \<notin> violatedStates (allFlights s'' ! 0)
                        \<and> map flightNumber_avn (avnHeap g'') = [flightNumber (allFlights s'' ! 3)]
                        \<and> map recordedSpeed (avnHeap g'') = [330]
                        \<and> allAVNs s'' = [0]
                    | None \<Rightarrow> False)
            | None \<Rightarrow> False)
    | None \<Rightarrow> False)"
  by code_simp

end
